theory Spec2Isabelle
  imports Complex_Main "HOL-Library.Word" "HOL-Library.Sublist" "HOL-Library.Log_Nat"
begin

section \<open>Strings and numbers of the host language\<close>

text \<open>
  A TypeScript string is a sequence of UTF-16 code units; \<open>length\<close>, \<open>charCodeAt\<close>,
  \<open>substring\<close>, \<open>indexOf\<close> and \<open>split\<close> all count code units.  A literal is written
  \<open>str ''...''\<close>.
\<close>

type_synonym jsstring = "16 word list"

definition str :: "string \<Rightarrow> jsstring" where
  "str s = map (\<lambda>c. of_nat (of_char c)) s"

text \<open>\<open>s.substring(a, b)\<close>: both indices are clamped to the length and swapped when
  out of order.\<close>

definition substring :: "jsstring \<Rightarrow> nat \<Rightarrow> nat \<Rightarrow> jsstring" where
  "substring s a b =
     (let a' = min a (length s); b' = min b (length s);
          lo = min a' b'; hi = max a' b'
      in take (hi - lo) (drop lo s))"

text \<open>\<open>s.indexOf(p) === 0\<close>: the string starts with \<open>p\<close>.\<close>

definition indexOf_is_0 :: "jsstring \<Rightarrow> jsstring \<Rightarrow> bool" where
  "indexOf_is_0 s p = (take (length p) s = p)"

text \<open>\<open>s.split(d)\<close> for a one-unit separator: never empty, \<open>''''\<close> gives one empty part.\<close>

fun split :: "jsstring \<Rightarrow> 16 word \<Rightarrow> jsstring list" where
  "split [] d = [[]]"
| "split (c # cs) d =
     (if c = d then [] # split cs d
      else (case split cs d of
              [] \<Rightarrow> [[c]]
            | p # ps \<Rightarrow> (c # p) # ps))"

text \<open>
  A number is an IEEE-754 double.  The hash below only ever multiplies and adds
  integers, so a number is modelled as an integer value, an infinity or NaN, and every
  arithmetic result is rounded to the nearest double (53 significant bits, ties to
  even, overflow to infinity) by \<open>js_round\<close>.
\<close>

datatype jsnum = Num int | PosInf | NegInf | NaN

definition js_round :: "int \<Rightarrow> jsnum" where
  "js_round x =
     (let a = \<bar>x\<bar> in
      if a < 2 ^ 53 then Num x
      else
        (let e = nat (bitlen a - 53);
             q = a div 2 ^ e;
             r = a mod 2 ^ e;
             h = 2 ^ (e - 1);
             y = (if h < r \<or> (r = h \<and> odd q) then (q + 1) * 2 ^ e else q * 2 ^ e)
         in if 2 ^ 1024 \<le> y then (if x < 0 then NegInf else PosInf)
            else Num (sgn x * y)))"

text \<open>\<open>33 * h\<close>\<close>

definition js_times33 :: "jsnum \<Rightarrow> jsnum" where
  "js_times33 h = (case h of Num x \<Rightarrow> js_round (33 * x) | PosInf \<Rightarrow> PosInf
                   | NegInf \<Rightarrow> NegInf | NaN \<Rightarrow> NaN)"

text \<open>\<open>a + b\<close>\<close>

fun js_plus :: "jsnum \<Rightarrow> jsnum \<Rightarrow> jsnum" where
  "js_plus (Num x) (Num y) = js_round (x + y)"
| "js_plus NaN _ = NaN"
| "js_plus _ NaN = NaN"
| "js_plus PosInf NegInf = NaN"
| "js_plus NegInf PosInf = NaN"
| "js_plus PosInf _ = PosInf"
| "js_plus NegInf _ = NegInf"
| "js_plus _ PosInf = PosInf"
| "js_plus _ NegInf = NegInf"

text \<open>\<open>s.charCodeAt(i)\<close>: NaN out of range.\<close>

definition charCodeAt :: "jsstring \<Rightarrow> nat \<Rightarrow> jsnum" where
  "charCodeAt s i = (if i < length s then Num (uint (s ! i)) else NaN)"


section \<open>utils: the djb2 hash\<close>

text \<open>
  \<^verbatim>\<open>
  export function fastHashBetween(str, begin, end) {
      let hash = 5381;
      for (let idx = begin; idx < end; idx += 1) {
          hash = 33 * hash + str.charCodeAt(idx);
      }
      return hash;
  }
  export function fastHash(str) {
      if (str === '') { return 0; }
      const len = str.length;
      return fastHashBetween(str, 0, len);
  }
  \<close>
\<close>

function fastHashBetween_loop :: "jsstring \<Rightarrow> nat \<Rightarrow> nat \<Rightarrow> jsnum \<Rightarrow> jsnum" where
  "fastHashBetween_loop s idx end hash =
     (if idx < end
      then fastHashBetween_loop s (idx + 1) end (js_plus (js_times33 hash) (charCodeAt s idx))
      else hash)"
  by pat_completeness auto
termination
  by (relation "measure (\<lambda>(s, idx, end, hash). end - idx)") auto

declare fastHashBetween_loop.simps [simp del]

definition fastHashBetween :: "jsstring \<Rightarrow> nat \<Rightarrow> nat \<Rightarrow> jsnum" where
  "fastHashBetween s begin end = fastHashBetween_loop s begin end (Num 5381)"

definition fastHash :: "jsstring \<Rightarrow> jsnum" where
  "fastHash s = (if s = [] then Num 0 else fastHashBetween s 0 (length s))"

text \<open>
  The hash as the specification words it: seed 5381, then \<open>h \<leftarrow> 33 * h + c\<close> for each
  character code \<open>c\<close> in turn, over the integers.
\<close>

definition djb2_exact :: "jsstring \<Rightarrow> int" where
  "djb2_exact s = foldl (\<lambda>h c. 33 * h + uint c) 5381 s"

text \<open>
  The same fold in the arithmetic of the code: the product \<open>33 * h\<close> and the sum with
  the character code are each rounded to the nearest double.
\<close>

definition djb2_double :: "jsstring \<Rightarrow> jsnum" where
  "djb2_double s = foldl (\<lambda>h c. js_plus (js_times33 h) (Num (uint c))) (Num 5381) s"


section \<open>NetworkEngine\<close>

text \<open>
  Of a network rule the engine reads its shortcut and its permitted domains; its
  \<open>match\<close> method is a parameter \<open>rmatch\<close> of the functions that call it.
\<close>

record network_rule =
  ruleText :: jsstring
  shortcut :: jsstring
  permittedDomains :: "jsstring list option"

record request =
  requestId :: "nat option"
  url :: jsstring
  urlLowercase :: jsstring
  sourceHostname :: "jsstring option"

definition SHORTCUT_LENGTH :: nat where
  "SHORTCUT_LENGTH = 5"

definition MAX_URL_LENGTH :: nat where
  "MAX_URL_LENGTH = 4 * 1024"

text \<open>
  \<^verbatim>\<open>
  if (shortcut.length < 6 && shortcut.indexOf('ws:') === 0) return true;
  if (shortcut.length < 7 && shortcut.indexOf('|ws') === 0) return true;
  if (shortcut.length < 9 && shortcut.indexOf('http') === 0) return true;
  return !!(shortcut.length < 10 && shortcut.indexOf('|http') === 0);
  \<close>
\<close>

definition isAnyURLShortcut :: "network_rule \<Rightarrow> bool" where
  "isAnyURLShortcut rule =
     (let s = shortcut rule in
      if length s < 6 \<and> indexOf_is_0 s (str ''ws:'') then True
      else if length s < 7 \<and> indexOf_is_0 s (str ''|ws'') then True
      else if length s < 9 \<and> indexOf_is_0 s (str ''http'') then True
      else length s < 10 \<and> indexOf_is_0 s (str ''|http''))"

text \<open>
  \<^verbatim>\<open>
  for (let i = 0; i < shortcut.length - NetworkEngine.SHORTCUT_LENGTH; i += 1) {
      const s = shortcut.substring(i, i + NetworkEngine.SHORTCUT_LENGTH);
      result.push(s);
  }
  \<close>
  The bound \<open>shortcut.length - SHORTCUT_LENGTH\<close> is a signed difference.
\<close>

function getRuleShortcuts_loop :: "jsstring \<Rightarrow> nat \<Rightarrow> jsstring list \<Rightarrow> jsstring list" where
  "getRuleShortcuts_loop s i result =
     (if int i < int (length s) - int SHORTCUT_LENGTH
      then getRuleShortcuts_loop s (i + 1) (result @ [substring s i (i + SHORTCUT_LENGTH)])
      else result)"
  by pat_completeness auto
termination
  by (relation "measure (\<lambda>(s, i, result). length s - i)") auto

declare getRuleShortcuts_loop.simps [simp del]

text \<open>\<open>None\<close> is the \<open>null\<close> the method returns.\<close>

definition getRuleShortcuts :: "network_rule \<Rightarrow> jsstring list option" where
  "getRuleShortcuts rule =
     (let s = shortcut rule in
      if length s < SHORTCUT_LENGTH then None
      else if isAnyURLShortcut rule then None
      else Some (getRuleShortcuts_loop s 0 []))"

text \<open>
  \<^verbatim>\<open>
  const parts = hostname.split('.');
  const subdomains = [];
  let domain = '';
  for (let i = parts.length - 1; i >= 0; i -= 1) {
      if (domain === '') { domain = parts[i]; }
      else { domain = `${parts[i]}.${domain}`; }
      subdomains.push(domain);
  }
  return subdomains;
  \<close>
  The loop counter of the model is \<open>i + 1\<close>, so that it stops at 0.
\<close>

definition dot :: "16 word" where
  "dot = 46"

fun getSubdomains_loop :: "jsstring list \<Rightarrow> nat \<Rightarrow> jsstring \<Rightarrow> jsstring list \<Rightarrow> jsstring list" where
  "getSubdomains_loop parts 0 domain subdomains = subdomains"
| "getSubdomains_loop parts (Suc i) domain subdomains =
     (let domain' = (if domain = [] then parts ! i else parts ! i @ [dot] @ domain)
      in getSubdomains_loop parts i domain' (subdomains @ [domain']))"

definition getSubdomains :: "jsstring \<Rightarrow> jsstring list" where
  "getSubdomains hostname =
     (let parts = split hostname dot
      in getSubdomains_loop parts (length parts) [] [])"

text \<open>
  The suffixes as the specification words them: the dot-separated suffixes of the
  hostname from the most specific (the full hostname) to the top-level domain.
\<close>

fun joinDots :: "jsstring list \<Rightarrow> jsstring" where
  "joinDots [] = []"
| "joinDots [p] = p"
| "joinDots (p # q # ps) = p @ [dot] @ joinDots (q # ps)"

definition suffixesMostSpecificFirst :: "jsstring \<Rightarrow> jsstring list" where
  "suffixesMostSpecificFirst hostname =
     (let parts = split hostname dot
      in map (\<lambda>k. joinDots (drop k parts)) [0..<length parts])"

text \<open>What the loop of \<open>getSubdomains\<close> holds in \<open>domain\<close> once it has gone through
  the labels \<open>ps\<close>: an empty \<open>domain\<close> is replaced, not prefixed.\<close>

definition quirkJoin :: "jsstring list \<Rightarrow> jsstring" where
  "quirkJoin ps = foldr (\<lambda>p d. if d = [] then p else p @ [dot] @ d) ps []"

text \<open>\<open>map.get(k) || []\<close>\<close>

definition getOrEmpty :: "('k \<rightharpoonup> 'v list) \<Rightarrow> 'k \<Rightarrow> 'v list" where
  "getOrEmpty m k = (case m k of None \<Rightarrow> [] | Some xs \<Rightarrow> xs)"

text \<open>
  The engine's tables.  \<open>ruleStorage\<close> stands for \<open>ruleStorage.retrieveNetworkRule\<close>,
  which returns the rule stored at an index or \<open>null\<close>.
\<close>

record engine =
  rulesCount :: nat
  ruleStorage :: "nat \<Rightarrow> network_rule option"
  domainsLookupTable :: "jsnum \<rightharpoonup> nat list"
  shortcutsLookupTable :: "jsnum \<rightharpoonup> nat list"
  shortcutsHistogram :: "jsnum \<rightharpoonup> int"
  otherRules :: "network_rule list"

text \<open>
  \<^verbatim>\<open>
  rulesIndexes.forEach((ruleIdx) => {
      const rule = this.ruleStorage.retrieveNetworkRule(ruleIdx);
      if (rule && rule.match(request)) { result.push(rule); }
  });
  \<close>
\<close>

definition matchIndexes ::
  "engine \<Rightarrow> (network_rule \<Rightarrow> request \<Rightarrow> bool) \<Rightarrow> request \<Rightarrow> nat list
     \<Rightarrow> network_rule list \<Rightarrow> network_rule list" where
  "matchIndexes eng rmatch req rulesIndexes result =
     foldl (\<lambda>res ruleIdx.
              (case ruleStorage eng ruleIdx of
                 None \<Rightarrow> res
               | Some rule \<Rightarrow> if rmatch rule req then res @ [rule] else res))
           result rulesIndexes"

text \<open>
  \<^verbatim>\<open>
  let urlLen = request.urlLowercase.length;
  if (urlLen > NetworkEngine.MAX_URL_LENGTH) { urlLen = NetworkEngine.MAX_URL_LENGTH; }
  for (let i = 0; i <= urlLen - NetworkEngine.SHORTCUT_LENGTH; i += 1) {
      const hash = fastHashBetween(request.urlLowercase, i, i + NetworkEngine.SHORTCUT_LENGTH);
      const rulesIndexes = this.shortcutsLookupTable.get(hash);
      if (rulesIndexes) { rulesIndexes.forEach(...); }
  }
  \<close>
\<close>

function matchShortcutsLookupTable_loop ::
  "engine \<Rightarrow> (network_rule \<Rightarrow> request \<Rightarrow> bool) \<Rightarrow> request \<Rightarrow> nat \<Rightarrow> nat
     \<Rightarrow> network_rule list \<Rightarrow> network_rule list" where
  "matchShortcutsLookupTable_loop eng rmatch req urlLen i result =
     (if int i \<le> int urlLen - int SHORTCUT_LENGTH
      then
        (let hash = fastHashBetween (urlLowercase req) i (i + SHORTCUT_LENGTH);
             result' = (case shortcutsLookupTable eng hash of
                          None \<Rightarrow> result
                        | Some rulesIndexes \<Rightarrow> matchIndexes eng rmatch req rulesIndexes result)
         in matchShortcutsLookupTable_loop eng rmatch req urlLen (i + 1) result')
      else result)"
  by pat_completeness auto
termination
  by (relation "measure (\<lambda>(eng, rmatch, req, urlLen, i, result). Suc urlLen - i)") auto

declare matchShortcutsLookupTable_loop.simps [simp del]

definition matchShortcutsLookupTable ::
  "engine \<Rightarrow> (network_rule \<Rightarrow> request \<Rightarrow> bool) \<Rightarrow> request \<Rightarrow> network_rule list" where
  "matchShortcutsLookupTable eng rmatch req =
     (let urlLen = length (urlLowercase req);
          urlLen' = (if urlLen > MAX_URL_LENGTH then MAX_URL_LENGTH else urlLen)
      in matchShortcutsLookupTable_loop eng rmatch req urlLen' 0 [])"

text \<open>
  The shortcut phase as the specification words it: the windows \<open>[i, i + 5)\<close> of the
  lower-cased URL for \<open>0 \<le> i \<le> min (length, 4096) - 5\<close>, the storage indexes the
  shortcuts table holds under the djb2 hashes of these windows (the candidates), and
  what becomes of one candidate: it is retrieved and matched against the request.
\<close>

definition urlWindows :: "jsstring \<Rightarrow> jsstring list" where
  "urlWindows u = map (\<lambda>i. take 5 (drop (nat i) u)) [0 .. int (min (length u) 4096) - 5]"

definition shortcutCandidates :: "engine \<Rightarrow> jsstring \<Rightarrow> nat list" where
  "shortcutCandidates eng u =
     concat (map (\<lambda>w. getOrEmpty (shortcutsLookupTable eng) (Num (djb2_exact w))) (urlWindows u))"

definition acceptCandidate ::
  "engine \<Rightarrow> (network_rule \<Rightarrow> request \<Rightarrow> bool) \<Rightarrow> request \<Rightarrow> nat \<Rightarrow> network_rule option" where
  "acceptCandidate eng rmatch req ruleIdx =
     (case ruleStorage eng ruleIdx of
        None \<Rightarrow> None
      | Some rule \<Rightarrow> if rmatch rule req then Some rule else None)"

text \<open>
  \<^verbatim>\<open>
  if (!request.sourceHostname) { return result; }
  const domains = NetworkEngine.getSubdomains(request.sourceHostname);
  domains.forEach((domain) => {
      const hash = fastHash(domain);
      const rulesIndexes = this.domainsLookupTable.get(hash);
      if (rulesIndexes) { rulesIndexes.forEach(...); }
  });
  \<close>
\<close>

definition matchDomainsLookupTable ::
  "engine \<Rightarrow> (network_rule \<Rightarrow> request \<Rightarrow> bool) \<Rightarrow> request \<Rightarrow> network_rule list" where
  "matchDomainsLookupTable eng rmatch req =
     (case sourceHostname req of
        None \<Rightarrow> []
      | Some hostname \<Rightarrow>
          if hostname = [] then []
          else foldl (\<lambda>result domain.
                        (case domainsLookupTable eng (fastHash domain) of
                           None \<Rightarrow> result
                         | Some rulesIndexes \<Rightarrow> matchIndexes eng rmatch req rulesIndexes result))
                     [] (getSubdomains hostname))"

definition matchAll ::
  "engine \<Rightarrow> (network_rule \<Rightarrow> request \<Rightarrow> bool) \<Rightarrow> request \<Rightarrow> network_rule list" where
  "matchAll eng rmatch req =
     matchShortcutsLookupTable eng rmatch req
       @ matchDomainsLookupTable eng rmatch req
       @ filter (\<lambda>r. rmatch r req) (otherRules eng)"

text \<open>
  \<^verbatim>\<open>
  const shortcuts = NetworkEngine.getRuleShortcuts(rule);
  if (!shortcuts || shortcuts.length === 0) { return false; }
  let shortcutHash = -1;
  let minCount = 2147483647;
  shortcuts.forEach((shortcutToCheck) => {
      const hash = fastHash(shortcutToCheck);
      let count = this.shortcutsHistogram.get(hash);
      if (!count) { count = 0; }
      if (count < minCount) { minCount = count; shortcutHash = hash; }
  });
  this.shortcutsHistogram.set(shortcutHash, minCount + 1);
  let rulesIndexes = this.shortcutsLookupTable.get(shortcutHash);
  if (!rulesIndexes) { rulesIndexes = []; }
  rulesIndexes.push(storageIdx);
  this.shortcutsLookupTable.set(shortcutHash, rulesIndexes);
  return true;
  \<close>
\<close>

definition leastUsedShortcut :: "engine \<Rightarrow> jsstring list \<Rightarrow> jsnum \<times> int" where
  "leastUsedShortcut eng shortcuts =
     foldl (\<lambda>(shortcutHash, minCount) shortcutToCheck.
              (let hash = fastHash shortcutToCheck;
                   count = (case shortcutsHistogram eng hash of None \<Rightarrow> 0 | Some n \<Rightarrow> n)
               in if count < minCount then (hash, count) else (shortcutHash, minCount)))
           (Num (- 1), 2147483647) shortcuts"

definition addRuleToShortcutsTable :: "engine \<Rightarrow> network_rule \<Rightarrow> nat \<Rightarrow> bool \<times> engine" where
  "addRuleToShortcutsTable eng rule storageIdx =
     (case getRuleShortcuts rule of
        None \<Rightarrow> (False, eng)
      | Some shortcuts \<Rightarrow>
          if shortcuts = [] then (False, eng)
          else
            (let (shortcutHash, minCount) = leastUsedShortcut eng shortcuts;
                 rulesIndexes = (case shortcutsLookupTable eng shortcutHash of
                                   None \<Rightarrow> [] | Some xs \<Rightarrow> xs)
             in (True,
                 eng\<lparr>shortcutsHistogram := (shortcutsHistogram eng)(shortcutHash \<mapsto> minCount + 1),
                     shortcutsLookupTable :=
                       (shortcutsLookupTable eng)(shortcutHash \<mapsto> rulesIndexes @ [storageIdx])\<rparr>)))"


text \<open>
  Modelled from the spec: \<open>NetworkRule.match\<close> (\<open>network-rule.ts\<close> is not among the
  sources), for a rule without modifiers whose pattern has neither anchors nor
  separators.  The specification has the pattern matched in full against the
  lower-cased URL of the request, \<open>*\<close> standing for \<open>.*\<close>: the literal pieces between
  the \<open>*\<close> occur in the URL one after the other.  \<open>findPiece p u\<close> is what follows the
  first occurrence of \<open>p\<close> in \<open>u\<close>.
\<close>

definition star :: "16 word" where
  "star = 42"

fun findPiece :: "jsstring \<Rightarrow> jsstring \<Rightarrow> jsstring option" where
  "findPiece p [] = (if p = [] then Some [] else None)"
| "findPiece p (c # cs) =
     (if take (length p) (c # cs) = p then Some (drop (length p) (c # cs))
      else findPiece p cs)"

fun matchPieces :: "jsstring list \<Rightarrow> jsstring \<Rightarrow> bool" where
  "matchPieces [] u = True"
| "matchPieces (p # ps) u =
     (case findPiece p u of None \<Rightarrow> False | Some rest \<Rightarrow> matchPieces ps rest)"

definition wildcardMatch :: "network_rule \<Rightarrow> request \<Rightarrow> bool" where
  "wildcardMatch r req = matchPieces (split (ruleText r) star) (urlLowercase req)"

text \<open>
  The rule \<open>abcdef*zzzzz\<close> with its shortcut \<open>abcdef\<close>, the engine after
  \<open>addRuleToShortcutsTable\<close> has put it into a new engine at storage index 0, a request
  whose URL has 10,000 code units, \<open>abcdef\<close>, 9989 times \<open>y\<close> and \<open>zzzzz\<close>, and the
  request with that URL cut to its first 4096 code units.
\<close>

definition starRule :: network_rule where
  "starRule = \<lparr>ruleText = str ''abcdef*zzzzz'', shortcut = str ''abcdef'',
               permittedDomains = None\<rparr>"

definition newEngine :: engine where
  "newEngine =
     \<lparr>rulesCount = 0,
      ruleStorage = (\<lambda>i. if i = 0 then Some starRule else None),
      domainsLookupTable = Map.empty,
      shortcutsLookupTable = Map.empty,
      shortcutsHistogram = Map.empty,
      otherRules = []\<rparr>"

definition starEngine :: engine where
  "starEngine = snd (addRuleToShortcutsTable newEngine starRule 0)"

definition filler :: jsstring where
  "filler = replicate 9989 121"

definition longRequest :: request where
  "longRequest =
     \<lparr>requestId = None,
      url = str ''abcdef'' @ filler @ str ''zzzzz'',
      urlLowercase = str ''abcdef'' @ filler @ str ''zzzzz'',
      sourceHostname = None\<rparr>"

definition truncatedRequest :: request where
  "truncatedRequest =
     longRequest\<lparr>url := take 4096 (url longRequest),
                 urlLowercase := take 4096 (urlLowercase longRequest)\<rparr>"

text \<open>
  An engine whose domains table holds one rule under the domain \<open>bc\<close> and one under
  \<open>a.bc\<close>, and a request from the source hostname \<open>a.bc\<close>.
\<close>

definition ruleForBc :: network_rule where
  "ruleForBc = \<lparr>ruleText = str ''x$domain=bc'', shortcut = str ''x'',
                 permittedDomains = Some [str ''bc'']\<rparr>"

definition ruleForABc :: network_rule where
  "ruleForABc = \<lparr>ruleText = str ''x$domain=a.bc'', shortcut = str ''x'',
                  permittedDomains = Some [str ''a.bc'']\<rparr>"

definition domainsEngine :: engine where
  "domainsEngine =
     \<lparr>rulesCount = 2,
      ruleStorage = (\<lambda>i. if i = 0 then Some ruleForABc else if i = 1 then Some ruleForBc else None),
      domainsLookupTable = [fastHash (str ''a.bc'') \<mapsto> [0], fastHash (str ''bc'') \<mapsto> [1]],
      shortcutsLookupTable = Map.empty,
      shortcutsHistogram = Map.empty,
      otherRules = []\<rparr>"

definition requestFromABc :: request where
  "requestFromABc = \<lparr>requestId = None, url = str ''http://x/'', urlLowercase = str ''http://x/'',
                      sourceHostname = Some (str ''a.bc'')\<rparr>"


section \<open>CosmeticLookupTable\<close>

text \<open>
  Of a cosmetic rule the table reads \<open>getContent()\<close>, \<open>isWhitelist()\<close>, \<open>isGeneric()\<close>
  and \<open>getPermittedDomains()\<close>, which are fields of the record; \<open>rule.match(hostname)\<close>
  and \<open>DomainModifier.isWildcardDomain\<close> are parameters \<open>cmatch\<close> and
  \<open>isWildcardDomain\<close> of the functions that call them.
\<close>

record cosmetic_rule =
  getContent :: jsstring
  isWhitelist :: bool
  isGeneric :: bool
  getPermittedDomains :: "jsstring list option"

record cosmetic_lookup_table =
  byHostname :: "jsstring \<rightharpoonup> cosmetic_rule list"
  wildcardRules :: "cosmetic_rule list"
  genericRules :: "cosmetic_rule list"
  whitelist :: "jsstring \<rightharpoonup> cosmetic_rule list"

definition newCosmeticLookupTable :: cosmetic_lookup_table where
  "newCosmeticLookupTable =
     \<lparr>byHostname = Map.empty, wildcardRules = [], genericRules = [], whitelist = Map.empty\<rparr>"

text \<open>
  \<^verbatim>\<open>
  addRule(rule: CosmeticRule): void {
      if (rule.isWhitelist()) {
          const ruleContent = rule.getContent();
          const existingRules = this.whitelist.get(ruleContent) || [];
          existingRules.push(rule);
          this.whitelist.set(ruleContent, existingRules);
          return;
      }
      if (rule.isGeneric()) { this.genericRules.push(rule); return; }
      const domains = rule.getPermittedDomains();
      if (domains) {
          const hasWildcardDomain = domains.some((d) => DomainModifier.isWildcardDomain(d));
          if (hasWildcardDomain) { this.wildcardRules.push(rule); return; }
          for (const domain of domains) {
              const rules = this.byHostname.get(domain) || [];
              rules.push(rule);
              this.byHostname.set(domain, rules);
          }
      }
  }
  \<close>
\<close>

definition addRule ::
  "(jsstring \<Rightarrow> bool) \<Rightarrow> cosmetic_lookup_table \<Rightarrow> cosmetic_rule \<Rightarrow> cosmetic_lookup_table" where
  "addRule isWildcardDomain t rule =
     (if isWhitelist rule then
        t\<lparr>whitelist := (whitelist t)(getContent rule \<mapsto>
                          getOrEmpty (whitelist t) (getContent rule) @ [rule])\<rparr>
      else if isGeneric rule then
        t\<lparr>genericRules := genericRules t @ [rule]\<rparr>
      else
        (case getPermittedDomains rule of
           None \<Rightarrow> t
         | Some domains \<Rightarrow>
             if list_ex isWildcardDomain domains then
               t\<lparr>wildcardRules := wildcardRules t @ [rule]\<rparr>
             else
               t\<lparr>byHostname :=
                    foldl (\<lambda>m domain. m(domain \<mapsto> getOrEmpty m domain @ [rule]))
                          (byHostname t) domains\<rparr>))"

text \<open>
  \<^verbatim>\<open>
  findByHostname(hostname: string): CosmeticRule[] {
      const rules = this.byHostname.get(hostname) || [] as CosmeticRule[];
      rules.push(...this.wildcardRules.filter((r) => r.match(hostname)));
      return rules.filter((rule) => !rule.isWhitelist());
  }
  \<close>
  When the hostname has an entry, \<open>rules\<close> is the very array stored in \<open>byHostname\<close>,
  so \<open>push\<close> extends the stored array; otherwise it is a fresh array.  The function
  returns the list and the table after the call.
\<close>

definition findByHostname ::
  "(cosmetic_rule \<Rightarrow> jsstring \<Rightarrow> bool) \<Rightarrow> cosmetic_lookup_table \<Rightarrow> jsstring
     \<Rightarrow> cosmetic_rule list \<times> cosmetic_lookup_table" where
  "findByHostname cmatch t hostname =
     (let matching = filter (\<lambda>r. cmatch r hostname) (wildcardRules t) in
      case byHostname t hostname of
        None \<Rightarrow>
          (filter (\<lambda>rule. \<not> isWhitelist rule) ([] @ matching), t)
      | Some stored \<Rightarrow>
          (let rules = stored @ matching
           in (filter (\<lambda>rule. \<not> isWhitelist rule) rules,
               t\<lparr>byHostname := (byHostname t)(hostname \<mapsto> rules)\<rparr>)))"

text \<open>
  \<^verbatim>\<open>
  isWhitelisted(hostname: string, rule: CosmeticRule): boolean {
      const whitelistedRules = this.whitelist.get(rule.getContent());
      if (!whitelistedRules) { return false; }
      return whitelistedRules.some((whitelistedRule) => whitelistedRule.match(hostname));
  }
  \<close>
\<close>

definition isWhitelisted ::
  "(cosmetic_rule \<Rightarrow> jsstring \<Rightarrow> bool) \<Rightarrow> cosmetic_lookup_table \<Rightarrow> jsstring
     \<Rightarrow> cosmetic_rule \<Rightarrow> bool" where
  "isWhitelisted cmatch t hostname rule =
     (case whitelist t (getContent rule) of
        None \<Rightarrow> False
      | Some whitelistedRules \<Rightarrow> list_ex (\<lambda>w. cmatch w hostname) whitelistedRules)"

text \<open>A table built by a sequence of \<open>addRule\<close> calls on a new table.\<close>

definition buildTable :: "(jsstring \<Rightarrow> bool) \<Rightarrow> cosmetic_rule list \<Rightarrow> cosmetic_lookup_table" where
  "buildTable isWildcardDomain rules = foldl (addRule isWildcardDomain) newCosmeticLookupTable rules"

text \<open>
  Whitelist rules are stored only in the whitelist map, each under its content: the
  other three collections hold no rule whose whitelist flag is set.
\<close>

definition whitelistOnlyInWhitelist :: "cosmetic_lookup_table \<Rightarrow> bool" where
  "whitelistOnlyInWhitelist t =
     ((\<forall>h rs. byHostname t h = Some rs \<longrightarrow> list_all (\<lambda>r. \<not> isWhitelist r) rs)
      \<and> list_all (\<lambda>r. \<not> isWhitelist r) (wildcardRules t)
      \<and> list_all (\<lambda>r. \<not> isWhitelist r) (genericRules t)
      \<and> (\<forall>c ws. whitelist t c = Some ws \<longrightarrow> list_all (\<lambda>w. isWhitelist w \<and> getContent w = c) ws))"

text \<open>
  Three rules and the table built from them: \<open>example.org##.banner\<close>,
  \<open>example.org#@#.banner\<close> and \<open>example.*##.ad\<close>; a domain is taken as a wildcard
  domain when it has a \<open>*\<close>.
\<close>

definition hideBanner :: cosmetic_rule where
  "hideBanner = \<lparr>getContent = str ''.banner'', isWhitelist = False, isGeneric = False,
                 getPermittedDomains = Some [str ''example.org'']\<rparr>"

definition hideAd :: cosmetic_rule where
  "hideAd = \<lparr>getContent = str ''.ad'', isWhitelist = False, isGeneric = False,
             getPermittedDomains = Some [str ''example.*'']\<rparr>"

definition allowBanner :: cosmetic_rule where
  "allowBanner = \<lparr>getContent = str ''.banner'', isWhitelist = True, isGeneric = False,
                  getPermittedDomains = Some [str ''example.org'']\<rparr>"

definition hasStar :: "jsstring \<Rightarrow> bool" where
  "hasStar d = List.member d 42"

definition exampleTable :: cosmetic_lookup_table where
  "exampleTable = buildTable hasStar [hideBanner, allowBanner, hideAd]"


section \<open>RuleScanner\<close>

text \<open>\<open>s.trim()\<close> removes white space and line terminators at both ends.\<close>

definition isWhiteSpace :: "16 word \<Rightarrow> bool" where
  "isWhiteSpace c =
     (List.member [0x9, 0xA, 0xB, 0xC, 0xD, 0x20, 0xA0, 0x1680, 0x2028, 0x2029,
                   0x202F, 0x205F, 0x3000, 0xFEFF] c
      \<or> (0x2000 \<le> c \<and> c \<le> 0x200A))"

definition trim :: "jsstring \<Rightarrow> jsstring" where
  "trim s = rev (dropWhile isWhiteSpace (rev (dropWhile isWhiteSpace s)))"

text \<open>
  \<open>Buffer.from(line).length\<close>: the number of bytes of the UTF-8 encoding.  A surrogate
  pair is one code point of four bytes; a lone surrogate is replaced by U+FFFD, three
  bytes.
\<close>

fun utf8_length :: "jsstring \<Rightarrow> nat" where
  "utf8_length [] = 0"
| "utf8_length [c] = (if c < 0x80 then 1 else if c < 0x800 then 2 else 3)"
| "utf8_length (c # d # ds) =
     (if c < 0x80 then 1 + utf8_length (d # ds)
      else if c < 0x800 then 2 + utf8_length (d # ds)
      else if 0xD800 \<le> c \<and> c \<le> 0xDBFF \<and> 0xDC00 \<le> d \<and> d \<le> 0xDFFF
           then 4 + utf8_length ds
      else 3 + utf8_length (d # ds))"

text \<open>
  Modelled from the spec: the line reader (\<open>ILineReader\<close>, whose implementations are
  not among the sources).  \<open>readLine()\<close> returns the next physical line including any
  trailing newline it consumed, or \<open>null\<close> when the source is exhausted.  The reader's
  state is the list of the lines not yet read.
\<close>

fun readLine :: "jsstring list \<Rightarrow> jsstring option \<times> jsstring list" where
  "readLine [] = (None, [])"
| "readLine (line # rest) = (Some line, rest)"

text \<open>
  The scanner.  An \<open>IndexedRule\<close> has the fields \<open>rule\<close> and \<open>index\<close>.  The rule
  type \<open>'r\<close>, \<open>RuleBuilder.createRule\<close> (which returns a rule or
  \<open>null\<close>) and \<open>rule.isCosmetic()\<close> are parameters.
\<close>

record 'r indexed_rule =
  ir_rule :: 'r
  ir_index :: nat

record 'r scanner =
  reader :: "jsstring list"
  listId :: nat
  ignoreCosmetic :: bool
  currentRule :: "'r option"
  currentRuleIndex :: nat
  currentPos :: nat

definition RuleScanner :: "jsstring list \<Rightarrow> nat \<Rightarrow> bool \<Rightarrow> 'r scanner" where
  "RuleScanner rd lid ign =
     \<lparr>reader = rd, listId = lid, ignoreCosmetic = ign,
      currentRule = None, currentRuleIndex = 0, currentPos = 0\<rparr>"

text \<open>
  \<^verbatim>\<open>
  private readNextLine(): string | null {
      while (true) {
          const line = this.reader.readLine();
          if (line) {
              this.currentPos += Buffer.from(line).length;
              return line.trim();
          }
          return line;
      }
  }
  \<close>
  An empty string is falsy: it is returned as it is and the position stays.
\<close>

definition readNextLine :: "'r scanner \<Rightarrow> jsstring option \<times> 'r scanner" where
  "readNextLine sc =
     (case readLine (reader sc) of
        (None, rd) \<Rightarrow> (None, sc\<lparr>reader := rd\<rparr>)
      | (Some line, rd) \<Rightarrow>
          if line \<noteq> []
          then (Some (trim line), sc\<lparr>reader := rd, currentPos := currentPos sc + utf8_length line\<rparr>)
          else (Some line, sc\<lparr>reader := rd\<rparr>))"

definition isIgnored :: "('r \<Rightarrow> bool) \<Rightarrow> 'r scanner \<Rightarrow> 'r \<Rightarrow> bool" where
  "isIgnored isCosmetic sc r = (if \<not> ignoreCosmetic sc then False else isCosmetic r)"

lemma readNextLine_shorter:
  "readNextLine sc = (Some line, sc1) \<Longrightarrow> length (reader sc1) < length (reader sc)"
  by (cases "reader sc") (auto simp: readNextLine_def split: if_splits)

text \<open>
  \<^verbatim>\<open>
  public scan(): boolean {
      while (true) {
          const lineIndex = this.currentPos;
          const line = this.readNextLine();
          if (line === null) { return false; }
          if (line) {
              const rule = RuleBuilder.createRule(line, this.listId);
              if (rule && !this.isIgnored(rule)) {
                  this.currentRule = rule;
                  this.currentRuleIndex = lineIndex;
                  return true;
              }
          }
      }
  }
  \<close>
\<close>

function scan ::
  "(jsstring \<Rightarrow> nat \<Rightarrow> 'r option) \<Rightarrow> ('r \<Rightarrow> bool) \<Rightarrow> 'r scanner \<Rightarrow> bool \<times> 'r scanner" where
  "scan createRule isCosmetic sc =
     (let lineIndex = currentPos sc in
      case readNextLine sc of
        (None, sc1) \<Rightarrow> (False, sc1)
      | (Some line, sc1) \<Rightarrow>
          if line \<noteq> [] then
            (case createRule line (listId sc1) of
               None \<Rightarrow> scan createRule isCosmetic sc1
             | Some r \<Rightarrow>
                 if \<not> isIgnored isCosmetic sc1 r
                 then (True, sc1\<lparr>currentRule := Some r, currentRuleIndex := lineIndex\<rparr>)
                 else scan createRule isCosmetic sc1)
          else scan createRule isCosmetic sc1)"
  by pat_completeness auto
termination
  by (relation "measure (\<lambda>(createRule, isCosmetic, sc). length (reader sc))")
     (auto dest: readNextLine_shorter [OF sym])

declare scan.simps [simp del]

text \<open>
  \<^verbatim>\<open>
  public getRule(): IndexedRule | null {
      if (this.currentRule) { return new IndexedRule(this.currentRule, this.currentRuleIndex); }
      return null;
  }
  \<close>
\<close>

definition getRule :: "'r scanner \<Rightarrow> 'r indexed_rule option" where
  "getRule sc =
     (case currentRule sc of
        Some r \<Rightarrow> Some \<lparr>ir_rule = r, ir_index = currentRuleIndex sc\<rparr>
      | None \<Rightarrow> None)"

lemma scan_True_shorter:
  "scan createRule isCosmetic sc = (True, sc') \<Longrightarrow> length (reader sc') < length (reader sc)"
proof (induction "reader sc" arbitrary: sc)
  case Nil
  then show ?case
    by (subst (asm) scan.simps) (simp add: readNextLine_def)
next
  case (Cons l ls)
  have IH: "\<And>sc1. scan createRule isCosmetic sc1 = (True, sc') \<Longrightarrow> reader sc1 = ls
              \<Longrightarrow> length (reader sc') < Suc (length ls)"
    using Cons.hyps(1) by fastforce
  from Cons.hyps(2) [symmetric] Cons.prems show ?case
    apply (subst (asm) scan.simps)
    apply (auto simp: readNextLine_def Let_def split: if_splits option.splits dest!: IH)
    done
qed

text \<open>
  The loop every caller runs (the engines' constructors, \<open>Engine.loadRules\<close>):
  \<^verbatim>\<open>
  while (scanner.scan()) { ... scanner.getRule() ... }
  \<close>
  \<open>scanAll\<close> is the list of what \<open>getRule()\<close> returns after each \<open>scan()\<close> that
  returned true, up to the first \<open>scan()\<close> that returns false.
\<close>

function scanAll ::
  "(jsstring \<Rightarrow> nat \<Rightarrow> 'r option) \<Rightarrow> ('r \<Rightarrow> bool) \<Rightarrow> 'r scanner
     \<Rightarrow> 'r indexed_rule option list" where
  "scanAll createRule isCosmetic sc =
     (case scan createRule isCosmetic sc of
        (False, sc') \<Rightarrow> []
      | (True, sc') \<Rightarrow> getRule sc' # scanAll createRule isCosmetic sc')"
  by pat_completeness auto
termination
  by (relation "measure (\<lambda>(createRule, isCosmetic, sc). length (reader sc))")
     (auto dest: scan_True_shorter [OF sym])

declare scanAll.simps [simp del]


text \<open>
  The byte offsets the specification speaks of.  A line gives a rule when it is not
  empty, is not all white space, the builder makes a rule of its trimmed text and the
  scanner does not ignore that rule; the offset of the line number \<open>k\<close> is the number
  of bytes of the lines before it.
\<close>

definition acceptedLine ::
  "(jsstring \<Rightarrow> nat \<Rightarrow> 'r option) \<Rightarrow> ('r \<Rightarrow> bool) \<Rightarrow> nat \<Rightarrow> bool \<Rightarrow> jsstring \<Rightarrow> bool" where
  "acceptedLine createRule isCosmetic lid ign line =
     (line \<noteq> [] \<and> trim line \<noteq> [] \<and>
      (case createRule (trim line) lid of
         None \<Rightarrow> False
       | Some r \<Rightarrow> \<not> (ign \<and> isCosmetic r)))"

definition ruleLineOffsets ::
  "(jsstring \<Rightarrow> nat \<Rightarrow> 'r option) \<Rightarrow> ('r \<Rightarrow> bool) \<Rightarrow> nat \<Rightarrow> bool \<Rightarrow> jsstring list \<Rightarrow> nat list" where
  "ruleLineOffsets createRule isCosmetic lid ign lines =
     map (\<lambda>k. sum_list (map utf8_length (take k lines)))
         (filter (\<lambda>k. acceptedLine createRule isCosmetic lid ign (lines ! k)) [0..<length lines])"

text \<open>The same offsets, computed along the lines from a starting position.\<close>

fun offsetsFrom ::
  "(jsstring \<Rightarrow> nat \<Rightarrow> 'r option) \<Rightarrow> ('r \<Rightarrow> bool) \<Rightarrow> nat \<Rightarrow> bool \<Rightarrow> nat \<Rightarrow> jsstring list \<Rightarrow> nat list" where
  "offsetsFrom createRule isCosmetic lid ign p [] = []"
| "offsetsFrom createRule isCosmetic lid ign p (l # ls) =
     (if acceptedLine createRule isCosmetic lid ign l then [p] else [])
       @ offsetsFrom createRule isCosmetic lid ign (p + utf8_length l) ls"

text \<open>
  A filter list of three lines, \<open>||example.org\<close>, \<open>! test\<close> and \<open>##banner\<close>, and a
  builder that makes no rule of a comment line.
\<close>

definition exampleCreateRule :: "jsstring \<Rightarrow> nat \<Rightarrow> jsstring option" where
  "exampleCreateRule line lid = (if take 1 line = str ''!'' then None else Some line)"

definition exampleLines :: "jsstring list" where
  "exampleLines = [str ''||example.org'' @ [10], str ''! test'' @ [10], str ''##banner'']"


section \<open>CookieFiltering\<close>

text \<open>
  A \<open>$cookie\<close> rule is a network rule whose advanced modifier is a \<open>CookieModifier\<close>;
  the filter reads \<open>isWhitelist()\<close>, \<open>getSameSite()\<close> and \<open>getMaxAge()\<close> (both
  \<open>null\<close> when absent), which are fields of the record.  \<open>CookieModifier.matches\<close> is a
  parameter \<open>cmatches\<close>, and \<open>String.toLowerCase\<close> a parameter \<open>lower\<close>, of the
  functions that call them.  Seconds are rational numbers, instants are integer
  milliseconds.
\<close>

record cookie_rule =
  cookieRuleText :: jsstring
  isWhitelistRule :: bool
  getSameSite :: "jsstring option"
  getMaxAge :: "rat option"

record header =
  header_name :: jsstring
  header_value :: jsstring

record cookie =
  cookie_name :: jsstring
  cookie_value :: jsstring

record schedule_entry =
  entryRemove :: bool
  entryCookieName :: jsstring
  entryCookieUrl :: jsstring
  entryRules :: "cookie_rule list"

type_synonym cookiesMap = "nat option \<rightharpoonup> schedule_entry list"

text \<open>
  \<^verbatim>\<open>
  return cookieModifier.getSameSite() !== null
      || (cookieModifier.getMaxAge() !== null && cookieModifier.getMaxAge()! > 0);
  \<close>
\<close>

definition isModifyingRule :: "cookie_rule \<Rightarrow> bool" where
  "isModifyingRule r =
     (getSameSite r \<noteq> None \<or> (case getMaxAge r of None \<Rightarrow> False | Some m \<Rightarrow> m > 0))"

text \<open>
  \<^verbatim>\<open>
  for (let i = 0; i < rules.length; i += 1) {
      const rule = rules[i];
      const cookieModifier = rule.getAdvancedModifier() as CookieModifier;
      if (cookieModifier.matches(cookieName) && !CookieFiltering.isModifyingRule(rule)) {
          return rule;
      }
  }
  return null;
  \<close>
\<close>

fun lookupNotModifyingRule ::
  "(cookie_rule \<Rightarrow> jsstring \<Rightarrow> bool) \<Rightarrow> jsstring \<Rightarrow> cookie_rule list \<Rightarrow> cookie_rule option" where
  "lookupNotModifyingRule cmatches cookieName [] = None"
| "lookupNotModifyingRule cmatches cookieName (r # rules) =
     (if cmatches r cookieName \<and> \<not> isModifyingRule r then Some r
      else lookupNotModifyingRule cmatches cookieName rules)"

text \<open>
  \<^verbatim>\<open>
  const result = [];
  for (let i = 0; i < rules.length; i += 1) {
      const rule = rules[i];
      const cookieModifier = rule.getAdvancedModifier() as CookieModifier;
      if (!cookieModifier.matches(cookieName)) { continue; }
      // Blocking or whitelist rule exists
      if (!CookieFiltering.isModifyingRule(rule)) { return []; }
      result.push(rule);
  }
  return result;
  \<close>
\<close>

fun lookupModifyingRules_loop ::
  "(cookie_rule \<Rightarrow> jsstring \<Rightarrow> bool) \<Rightarrow> jsstring \<Rightarrow> cookie_rule list \<Rightarrow> cookie_rule list
     \<Rightarrow> cookie_rule list" where
  "lookupModifyingRules_loop cmatches cookieName [] result = result"
| "lookupModifyingRules_loop cmatches cookieName (r # rules) result =
     (if \<not> cmatches r cookieName then lookupModifyingRules_loop cmatches cookieName rules result
      else if \<not> isModifyingRule r then []
      else lookupModifyingRules_loop cmatches cookieName rules (result @ [r]))"

definition lookupModifyingRules ::
  "(cookie_rule \<Rightarrow> jsstring \<Rightarrow> bool) \<Rightarrow> jsstring \<Rightarrow> cookie_rule list \<Rightarrow> cookie_rule list" where
  "lookupModifyingRules cmatches cookieName rules =
     lookupModifyingRules_loop cmatches cookieName rules []"

text \<open>
  \<^verbatim>\<open>
  for (let i = 0; i < headers.length; i += 1) {
      const header = headers[i];
      if (header.name.toLowerCase() === headerName.toLowerCase()) { return header; }
  }
  return null;
  \<close>
  The header object that is returned is given with its position in the array, where
  \<open>processRequestHeaders\<close> later writes its value.
\<close>

fun findHeaderByName_loop ::
  "(jsstring \<Rightarrow> jsstring) \<Rightarrow> header list \<Rightarrow> jsstring \<Rightarrow> nat \<Rightarrow> (nat \<times> header) option" where
  "findHeaderByName_loop lower [] name i = None"
| "findHeaderByName_loop lower (h # hs) name i =
     (if lower (header_name h) = lower name then Some (i, h)
      else findHeaderByName_loop lower hs name (i + 1))"

definition findHeaderByName ::
  "(jsstring \<Rightarrow> jsstring) \<Rightarrow> header list \<Rightarrow> jsstring \<Rightarrow> (nat \<times> header) option" where
  "findHeaderByName lower headers name = findHeaderByName_loop lower headers name 0"

text \<open>\<open>cookieValue.split(/; */)\<close>: a semicolon and the spaces after it separate.\<close>

definition semicolon :: "16 word" where
  "semicolon = 59"

definition space :: "16 word" where
  "space = 32"

definition equalsSign :: "16 word" where
  "equalsSign = 61"

function splitCookiePairs :: "jsstring \<Rightarrow> jsstring list" where
  "splitCookiePairs [] = [[]]"
| "splitCookiePairs (c # cs) =
     (if c = semicolon then [] # splitCookiePairs (dropWhile (\<lambda>x. x = space) cs)
      else (case splitCookiePairs cs of
              [] \<Rightarrow> [[c]]
            | p # ps \<Rightarrow> (c # p) # ps))"
  by pat_completeness auto
termination
  by (relation "measure length") (auto simp: length_dropWhile_le less_Suc_eq_le)

text \<open>\<open>s.indexOf(c)\<close> for one code unit; \<open>None\<close> is -1.\<close>

fun indexOf :: "jsstring \<Rightarrow> 16 word \<Rightarrow> nat option" where
  "indexOf [] c = None"
| "indexOf (x # xs) c = (if x = c then Some 0 else map_option Suc (indexOf xs c))"

text \<open>
  \<^verbatim>\<open>
  const pairs = cookieValue.split(/; */);
  for (let i = 0; i < pairs.length; i += 1) {
      const pair = pairs[i];
      const eqIdx = pair.indexOf('=');
      if (eqIdx < 0) { continue; }
      const key = pair.substr(0, eqIdx).trim();
      const value = pair.substr(eqIdx + 1, pair.length).trim();
      cookies.push(new Cookie(key, value));
  }
  \<close>
\<close>

fun parseCookie_loop :: "jsstring list \<Rightarrow> cookie list \<Rightarrow> cookie list" where
  "parseCookie_loop [] cookies = cookies"
| "parseCookie_loop (pair # pairs) cookies =
     (case indexOf pair equalsSign of
        None \<Rightarrow> parseCookie_loop pairs cookies
      | Some eqIdx \<Rightarrow>
          parseCookie_loop pairs
            (cookies @ [\<lparr>cookie_name = trim (take eqIdx pair),
                         cookie_value = trim (drop (eqIdx + 1) pair)\<rparr>]))"

definition parseCookie :: "jsstring \<Rightarrow> cookie list" where
  "parseCookie v = parseCookie_loop (splitCookiePairs v) []"

text \<open>
  \<^verbatim>\<open>
  let values = this.cookiesMap.get(requestId);
  if (!values) { values = []; this.cookiesMap.set(requestId, values); }
  values.push({ remove, cookie: { name, url }, rules });
  \<close>
\<close>

definition scheduleProcessingCookie ::
  "cookiesMap \<Rightarrow> nat option \<Rightarrow> jsstring \<Rightarrow> jsstring \<Rightarrow> cookie_rule list \<Rightarrow> bool \<Rightarrow> cookiesMap" where
  "scheduleProcessingCookie cookiesMap rid name u rules rm =
     cookiesMap(rid \<mapsto> getOrEmpty cookiesMap rid
                         @ [\<lparr>entryRemove = rm, entryCookieName = name,
                              entryCookieUrl = u, entryRules = rules\<rparr>])"

text \<open>
  \<^verbatim>\<open>
  let iCookies = cookies.length;
  while (iCookies > 0) {
      iCookies -= 1;
      const cookie = cookies[iCookies];
      const cookieName = cookie.name;
      const bRule = CookieFiltering.lookupNotModifyingRule(cookieName, cookieRules);
      if (bRule) {
          if (!bRule.isWhitelist()) {
              cookies.splice(iCookies, 1);
              cookieHeaderModified = true;
          }
          this.scheduleProcessingCookie(requestId!, cookieName, url, [bRule], true);
      }
      const mRules = CookieFiltering.lookupModifyingRules(cookieName, cookieRules);
      if (mRules && mRules.length > 0) {
          this.scheduleProcessingCookie(requestId!, cookieName, url, mRules, false);
      }
  }
  \<close>
  The counter of the model is \<open>iCookies\<close> before the decrement.  The index stays
  within the array: a \<open>splice\<close> removes the element at the index just visited.
\<close>

fun processCookies_loop ::
  "(cookie_rule \<Rightarrow> jsstring \<Rightarrow> bool) \<Rightarrow> request \<Rightarrow> cookie_rule list \<Rightarrow> nat
     \<Rightarrow> cookie list \<Rightarrow> bool \<Rightarrow> cookiesMap \<Rightarrow> cookie list \<times> bool \<times> cookiesMap" where
  "processCookies_loop cmatches req cookieRules 0 cookies modified cookiesMap =
     (cookies, modified, cookiesMap)"
| "processCookies_loop cmatches req cookieRules (Suc iCookies) cookies modified cookiesMap =
     (let name = cookie_name (cookies ! iCookies);
          (cookies1, modified1, cookiesMap1) =
            (case lookupNotModifyingRule cmatches name cookieRules of
               None \<Rightarrow> (cookies, modified, cookiesMap)
             | Some bRule \<Rightarrow>
                 (let (cookies', modified') =
                        (if \<not> isWhitelistRule bRule
                         then (take iCookies cookies @ drop (Suc iCookies) cookies, True)
                         else (cookies, modified))
                  in (cookies', modified',
                      scheduleProcessingCookie cookiesMap (requestId req) name (url req)
                        [bRule] True)));
          mRules = lookupModifyingRules cmatches name cookieRules;
          cookiesMap2 =
            (if mRules \<noteq> []
             then scheduleProcessingCookie cookiesMap1 (requestId req) name (url req) mRules False
             else cookiesMap1)
      in processCookies_loop cmatches req cookieRules iCookies cookies1 modified1 cookiesMap2)"

text \<open>\<open>cookies.map((c) => `${c.name}=${c.value}`).join('; ')\<close>\<close>

fun joinCookies :: "cookie list \<Rightarrow> jsstring" where
  "joinCookies [] = []"
| "joinCookies [c] = cookie_name c @ [equalsSign] @ cookie_value c"
| "joinCookies (c # d # ds) =
     cookie_name c @ [equalsSign] @ cookie_value c @ [semicolon, space] @ joinCookies (d # ds)"

text \<open>
  \<^verbatim>\<open>
  if ((cookieRules.length === 0)) { return false; }
  const { requestId, url } = request;
  const cookieHeader = CookieFiltering.findHeaderByName(requestHeaders, 'Cookie');
  if (!cookieHeader) { return false; }
  const cookies = CookieUtils.parseCookie(cookieHeader.value);
  if (cookies.length === 0) { return false; }
  let cookieHeaderModified = false;
  ... the loop ...
  if (cookieHeaderModified) {
      cookieHeader.value = cookies.map((c) => `${c.name}=${c.value}`).join('; ');
  }
  return cookieHeaderModified;
  \<close>
  The function returns its result, the request headers and the schedule map after the
  call.
\<close>

definition processRequestHeaders ::
  "(jsstring \<Rightarrow> jsstring) \<Rightarrow> (cookie_rule \<Rightarrow> jsstring \<Rightarrow> bool) \<Rightarrow> cookiesMap \<Rightarrow> request
     \<Rightarrow> header list \<Rightarrow> cookie_rule list \<Rightarrow> bool \<times> header list \<times> cookiesMap" where
  "processRequestHeaders lower cmatches cookiesMap req requestHeaders cookieRules =
     (if length cookieRules = 0 then (False, requestHeaders, cookiesMap)
      else
        (case findHeaderByName lower requestHeaders (str ''Cookie'') of
           None \<Rightarrow> (False, requestHeaders, cookiesMap)
         | Some (pos, cookieHeader) \<Rightarrow>
             (let cookies = parseCookie (header_value cookieHeader) in
              if length cookies = 0 then (False, requestHeaders, cookiesMap)
              else
                (let (cookies', cookieHeaderModified, cookiesMap') =
                       processCookies_loop cmatches req cookieRules (length cookies) cookies
                         False cookiesMap;
                     requestHeaders' =
                       (if cookieHeaderModified
                        then requestHeaders[pos := cookieHeader\<lparr>header_value := joinCookies cookies'\<rparr>]
                        else requestHeaders)
                 in (cookieHeaderModified, requestHeaders', cookiesMap')))))"

text \<open>
  A browser cookie, of which \<open>updateSetCookieMaxAge\<close> reads and writes \<open>maxAge\<close>
  (seconds, possibly undefined) and \<open>expires\<close> (a \<open>Date\<close>, possibly undefined, given by
  its \<open>getTime()\<close>).  \<open>Date.now()\<close> is the parameter \<open>nowMs\<close>.
  \<^verbatim>\<open>
  const currentTimeSec = Date.now() / 1000;
  let cookieExpiresTimeSec = null;
  if (setCookie.maxAge) {
      cookieExpiresTimeSec = currentTimeSec + setCookie.maxAge;
  } else if (setCookie.expires) {
      cookieExpiresTimeSec = setCookie.expires.getTime() / 1000;
  }
  const newCookieExpiresTimeSec = currentTimeSec + maxAge;
  if (cookieExpiresTimeSec === null || cookieExpiresTimeSec > newCookieExpiresTimeSec) {
      if (setCookie.expires) {
          setCookie.expires = new Date(newCookieExpiresTimeSec * 1000);
      } else {
          setCookie.maxAge = maxAge;
      }
      return true;
  }
  return false;
  \<close>
  \<open>if (setCookie.maxAge)\<close> is false for an undefined \<open>maxAge\<close> and for 0.
  The model computes with rational numbers where the code computes with doubles.  The
  two agree wherever the quotients and sums are doubles themselves, as they are at the
  inputs evaluated below; they can differ where the two expiry times compared are
  closer to each other than the rounding of a double.
\<close>

record browser_cookie =
  bcName :: jsstring
  bcMaxAge :: "rat option"
  bcExpires :: "int option"

text \<open>\<open>new Date(t)\<close> keeps the integer part of \<open>t\<close>.\<close>

definition newDate :: "rat \<Rightarrow> int" where
  "newDate t = (if 0 \<le> t then \<lfloor>t\<rfloor> else \<lceil>t\<rceil>)"

definition updateSetCookieMaxAge :: "int \<Rightarrow> browser_cookie \<Rightarrow> rat \<Rightarrow> bool \<times> browser_cookie" where
  "updateSetCookieMaxAge nowMs setCookie maxAge =
     (let currentTimeSec = of_int nowMs / 1000;
          cookieExpiresTimeSec =
            (case bcMaxAge setCookie of
               Some m \<Rightarrow>
                 if m \<noteq> 0 then Some (currentTimeSec + m)
                 else map_option (\<lambda>d. of_int d / 1000) (bcExpires setCookie)
             | None \<Rightarrow> map_option (\<lambda>d. of_int d / 1000) (bcExpires setCookie));
          newCookieExpiresTimeSec = currentTimeSec + maxAge
      in if (case cookieExpiresTimeSec of None \<Rightarrow> True | Some t \<Rightarrow> t > newCookieExpiresTimeSec)
         then
           (if bcExpires setCookie \<noteq> None
            then (True, setCookie\<lparr>bcExpires := Some (newDate (newCookieExpiresTimeSec * 1000))\<rparr>)
            else (True, setCookie\<lparr>bcMaxAge := Some maxAge\<rparr>))
         else (False, setCookie))"

text \<open>The instant, in seconds, at which a browser cookie expires when \<open>Max-Age\<close> and
  \<open>Expires\<close> are read as \<open>updateSetCookieMaxAge\<close> reads them; \<open>None\<close> for a cookie with
  neither.\<close>

definition expiryTimeSec :: "int \<Rightarrow> browser_cookie \<Rightarrow> rat option" where
  "expiryTimeSec nowMs c =
     (case bcMaxAge c of
        Some m \<Rightarrow> Some (of_int nowMs / 1000 + m)
      | None \<Rightarrow> map_option (\<lambda>d. of_int d / 1000) (bcExpires c))"


text \<open>
  A rule that does not modify applies to a cookie name: some rule of the list matches
  the name and is not modifying.
\<close>

definition nonModifyingApplies ::
  "(cookie_rule \<Rightarrow> jsstring \<Rightarrow> bool) \<Rightarrow> cookie_rule list \<Rightarrow> jsstring \<Rightarrow> bool" where
  "nonModifyingApplies cmatches cookieRules name =
     list_ex (\<lambda>r. cmatches r name \<and> \<not> isModifyingRule r) cookieRules"

text \<open>
  What the claim asks of a schedule entry: an entry with \<open>remove: false\<close> is for a
  cookie to which no rule that does not modify applies, and carries exactly the
  modifying rules that match the cookie, in the order of the list.
\<close>

definition modifyEntryAllowed ::
  "(cookie_rule \<Rightarrow> jsstring \<Rightarrow> bool) \<Rightarrow> cookie_rule list \<Rightarrow> schedule_entry \<Rightarrow> bool" where
  "modifyEntryAllowed cmatches cookieRules e =
     (if entryRemove e then True
      else \<not> nonModifyingApplies cmatches cookieRules (entryCookieName e)
           \<and> entryRules e = filter (\<lambda>r. cmatches r (entryCookieName e) \<and> isModifyingRule r) cookieRules)"

text \<open>
  Inputs of the evaluations below: lower-casing of the ASCII letters, a \<open>matches\<close> that
  accepts the cookie name \<open>track\<close>, a blocking and a modifying rule, a request and
  headers.
\<close>

definition asciiLowerCase :: "jsstring \<Rightarrow> jsstring" where
  "asciiLowerCase s = map (\<lambda>c. if 65 \<le> c \<and> c \<le> 90 then c + 32 else c) s"

definition matchesTrack :: "cookie_rule \<Rightarrow> jsstring \<Rightarrow> bool" where
  "matchesTrack r name = (name = str ''track'')"

definition trackRule :: cookie_rule where
  "trackRule = \<lparr>cookieRuleText = str ''||site.com^$cookie=track'', isWhitelistRule = False,
                getSameSite = None, getMaxAge = None\<rparr>"

definition laxRule :: cookie_rule where
  "laxRule = \<lparr>cookieRuleText = str ''||site.com^$cookie=track,sameSite=lax'', isWhitelistRule = False,
                getSameSite = Some (str ''lax''), getMaxAge = None\<rparr>"

definition siteRequest :: request where
  "siteRequest = \<lparr>requestId = Some 1, url = str ''https://site.com/'',
                  urlLowercase = str ''https://site.com/'', sourceHostname = None\<rparr>"

definition cookieHeaderOf :: "string \<Rightarrow> string \<Rightarrow> header" where
  "cookieHeaderOf n v = \<lparr>header_name = str n, header_value = str v\<rparr>"


section \<open>The shortcuts of a rule\<close>

lemma getRuleShortcuts_loop_windows:
  "getRuleShortcuts_loop s i result
     = result @ map (\<lambda>k. take 5 (drop k s)) [i..<length s - 5]"
proof (induction s i result rule: getRuleShortcuts_loop.induct)
  case (1 s i result)
  show ?case
  proof (cases "int i < int (length s) - int SHORTCUT_LENGTH")
    case True
    then have lt: "i < length s - 5" by (simp add: SHORTCUT_LENGTH_def)
    have sub: "substring s i (i + SHORTCUT_LENGTH) = take 5 (drop i s)"
      using lt by (simp add: substring_def SHORTCUT_LENGTH_def Let_def min_def max_def)
    have "getRuleShortcuts_loop s i result
            = getRuleShortcuts_loop s (i + 1) (result @ [substring s i (i + SHORTCUT_LENGTH)])"
      using True by (subst getRuleShortcuts_loop.simps) simp
    also have "\<dots> = (result @ [take 5 (drop i s)])
                       @ map (\<lambda>k. take 5 (drop k s)) [i + 1..<length s - 5]"
      using "1.IH" [OF True] by (simp add: sub)
    finally show ?thesis using lt by (simp add: upt_rec [of i])
  next
    case False
    then have "\<not> i < length s - 5" by (simp add: SHORTCUT_LENGTH_def)
    then show ?thesis using False by (subst getRuleShortcuts_loop.simps) simp
  qed
qed

text \<open>
  What the code returns for a shortcut of at least five code units that is no
  catch-all: the windows starting at 0, ..., \<open>length - 6\<close>.  The last window, the one
  starting at \<open>length - 5\<close>, is not among them.
\<close>

lemma getRuleShortcuts_windows:
  "5 \<le> length (shortcut r) \<Longrightarrow> \<not> isAnyURLShortcut r \<Longrightarrow>
   getRuleShortcuts r = Some (map (\<lambda>k. take 5 (drop k (shortcut r))) [0..<length (shortcut r) - 5])"
  by (simp add: getRuleShortcuts_def SHORTCUT_LENGTH_def getRuleShortcuts_loop_windows Let_def)

text \<open>
  C1.  The claim: a rule whose shortcut has at least five code units and is no
  catch-all gets all \<open>length - 4\<close> windows of five code units, the final one included,
  so a shortcut of exactly five code units gives the one-element list of itself and the
  rule goes into the shortcuts table.  The code at the shortcut \<open>abcde\<close>: the loop
  condition \<open>i < length - 5\<close> is false at once, \<open>getRuleShortcuts\<close> returns the empty
  list, and \<open>addRuleToShortcutsTable\<close> returns false and leaves the engine as it was.
  At the shortcut \<open>abcdef\<close> the code returns the window \<open>abcde\<close> alone, without the
  final window \<open>bcdef\<close>.
\<close>

theorem getRuleShortcuts_length5_empty:
  "getRuleShortcuts \<lparr>ruleText = str ''abcde'', shortcut = str ''abcde'', permittedDomains = None\<rparr>
     = Some []
   \<and> getRuleShortcuts \<lparr>ruleText = str ''abcdef'', shortcut = str ''abcdef'', permittedDomains = None\<rparr>
     = Some [str ''abcde'']
   \<and> \<not> isAnyURLShortcut \<lparr>ruleText = str ''abcde'', shortcut = str ''abcde'', permittedDomains = None\<rparr>
   \<and> addRuleToShortcutsTable eng
        \<lparr>ruleText = str ''abcde'', shortcut = str ''abcde'', permittedDomains = None\<rparr> storageIdx
       = (False, eng)"
  by (simp add: addRuleToShortcutsTable_def getRuleShortcuts_def isAnyURLShortcut_def
      indexOf_is_0_def SHORTCUT_LENGTH_def str_def getRuleShortcuts_loop.simps
      substring_def Let_def)


section \<open>The hash\<close>

lemma fastHashBetween_loop_foldl: "b \<le> e \<Longrightarrow> e \<le> length s \<Longrightarrow>
  fastHashBetween_loop s b e h = foldl (\<lambda>h c. js_plus (js_times33 h) (Num (uint c))) h (take (e - b) (drop b s))"
proof (induction s b e h rule: fastHashBetween_loop.induct)
  case (1 s idx e hash)
  show ?case
  proof (cases "idx < e")
    case True
    then have lt: "idx < length s" using 1 by simp
    have d: "drop idx s = s ! idx # drop (Suc idx) s" using lt by (simp add: Cons_nth_drop_Suc)
    have t: "take (e - idx) (drop idx s) = s ! idx # take (e - Suc idx) (drop (Suc idx) s)"
    proof -
      have "e - idx = Suc (e - Suc idx)" using True by simp
      then show ?thesis using d by simp
    qed
    have "fastHashBetween_loop s idx e hash = fastHashBetween_loop s (idx + 1) e (js_plus (js_times33 hash) (charCodeAt s idx))"
      using True by (subst fastHashBetween_loop.simps) simp
    also have "\<dots> = foldl (\<lambda>h c. js_plus (js_times33 h) (Num (uint c))) (js_plus (js_times33 hash) (charCodeAt s idx)) (take (e - (idx+1)) (drop (idx+1) s))"
      using 1 True by simp
    finally show ?thesis using t lt by (simp add: charCodeAt_def)
  next
    case False
    then show ?thesis using 1 by (subst fastHashBetween_loop.simps) simp
  qed
qed

lemma fastHashBetween_loop_foldl2:
  "e \<le> length s \<Longrightarrow>
   fastHashBetween_loop s b e h
     = foldl (\<lambda>h c. js_plus (js_times33 h) (Num (uint c))) h (take (e - b) (drop b s))"
proof (cases "b \<le> e")
  case True
  assume "e \<le> length s"
  then show ?thesis using True by (rule fastHashBetween_loop_foldl [rotated])
next
  case False
  then show ?thesis by (subst fastHashBetween_loop.simps) simp
qed

lemma fastHashBetween_djb2:
  "e \<le> length s \<Longrightarrow> fastHashBetween s b e = djb2_double (take (e - b) (drop b s))"
  by (simp add: fastHashBetween_def djb2_double_def fastHashBetween_loop_foldl2)

text \<open>
  No rounding happens as long as the fold over the integers stays below \<open>2 ^ 53\<close>,
  which it does on every string of up to seven code units, so on the windows of five
  code units of the shortcuts table.
\<close>

lemma js_round_exact: "\<bar>x\<bar> < 2 ^ 53 \<Longrightarrow> js_round x = Num x"
  by (simp add: js_round_def)

lemma djb2_step_exact:
  assumes "0 \<le> x" "(x + 2048) * 33 < 2 ^ 53"
  shows "js_plus (js_times33 (Num x)) (Num (uint (c :: 16 word))) = Num (33 * x + uint c)"
proof -
  have u: "0 \<le> uint c" "uint c < 65536"
    using uint_lt2p [of c] by simp_all
  have a: "js_times33 (Num x) = Num (33 * x)"
    using assms by (simp add: js_times33_def js_round_exact)
  have b: "js_round (33 * x + uint c) = Num (33 * x + uint c)"
    using assms u by (intro js_round_exact) simp
  show ?thesis by (simp add: a b)
qed

lemma foldl_exact:
  "0 \<le> x \<Longrightarrow> (x + 2048) * 33 ^ length s < 2 ^ 53 \<Longrightarrow>
   foldl (\<lambda>h c. js_plus (js_times33 h) (Num (uint c))) (Num x) (s :: jsstring)
     = Num (foldl (\<lambda>h c. 33 * h + uint c) x s)"
proof (induction s arbitrary: x)
  case Nil
  then show ?case by simp
next
  case (Cons c cs)
  have u: "0 \<le> uint c" "uint c < 65536"
    using uint_lt2p [of c] by simp_all
  have p1: "(1::int) \<le> 33 ^ length cs" by simp
  have "(x + 2048) * 33 * 1 \<le> (x + 2048) * 33 * 33 ^ length cs"
    using Cons.prems(1) p1 by (intro mult_left_mono) simp_all
  also have "\<dots> = (x + 2048) * 33 ^ length (c # cs)" by simp
  also have "\<dots> < 2 ^ 53" by (rule Cons.prems(2))
  finally have small: "(x + 2048) * 33 < 2 ^ 53" by simp
  have step: "js_plus (js_times33 (Num x)) (Num (uint c)) = Num (33 * x + uint c)"
    using Cons.prems(1) small by (rule djb2_step_exact)
  have nn: "0 \<le> 33 * x + uint c" using Cons.prems(1) u by simp
  have "(33 * x + uint c + 2048) \<le> (x + 2048) * 33" using u by simp
  then have "(33 * x + uint c + 2048) * 33 ^ length cs \<le> ((x + 2048) * 33) * 33 ^ length cs"
    by (intro mult_right_mono) simp_all
  also have "\<dots> = (x + 2048) * 33 ^ length (c # cs)" by simp
  also have "\<dots> < 2 ^ 53" by (rule Cons.prems(2))
  finally have b: "(33 * x + uint c + 2048) * 33 ^ length cs < 2 ^ 53" .
  show ?case using Cons.IH [OF nn b] by (simp add: step)
qed

lemma djb2_exact_short:
  assumes "length s \<le> 7"
  shows "djb2_double s = Num (djb2_exact s)"
proof -
  have "(33::int) ^ length s \<le> 33 ^ 7" using assms by (intro power_increasing) simp_all
  then have "(5381 + 2048) * (33::int) ^ length s \<le> (5381 + 2048) * 33 ^ 7"
    by (intro mult_left_mono) simp_all
  also have "\<dots> < 2 ^ 53" by simp
  finally show ?thesis
    unfolding djb2_double_def djb2_exact_def by (intro foldl_exact) simp_all
qed

lemma foldl_exact_mono:
  "0 \<le> x \<Longrightarrow> x \<le> foldl (\<lambda>h c. 33 * h + uint c) x (s :: jsstring)"
proof (induction s arbitrary: x)
  case Nil
  then show ?case by simp
next
  case (Cons c cs)
  have u: "0 \<le> uint c" by simp
  have "0 \<le> 33 * x + uint c" using Cons.prems u by linarith
  then have "33 * x + uint c \<le> foldl (\<lambda>h c. 33 * h + uint c) (33 * x + uint c) cs"
    by (rule Cons.IH)
  moreover have "x \<le> 33 * x + uint c" using Cons.prems u by linarith
  ultimately show ?case by simp
qed

lemma foldl_exact_below:
  "0 \<le> x \<Longrightarrow> foldl (\<lambda>h c. 33 * h + uint c) x (s :: jsstring) < 2 ^ 53 \<Longrightarrow>
   foldl (\<lambda>h c. js_plus (js_times33 h) (Num (uint c))) (Num x) s
     = Num (foldl (\<lambda>h c. 33 * h + uint c) x s)"
proof (induction s arbitrary: x)
  case Nil
  then show ?case by simp
next
  case (Cons c cs)
  have u: "0 \<le> uint c" by simp
  have nn: "0 \<le> 33 * x + uint c" using Cons.prems(1) u by linarith
  have "33 * x + uint c \<le> foldl (\<lambda>h c. 33 * h + uint c) (33 * x + uint c) cs"
    using nn by (rule foldl_exact_mono)
  then have b: "33 * x + uint c < 2 ^ 53" using Cons.prems(2) by simp
  then have a: "33 * x < 2 ^ 53" using u by linarith
  have t: "js_times33 (Num x) = Num (33 * x)"
    using a Cons.prems(1) by (simp add: js_times33_def js_round_exact)
  have p: "js_round (33 * x + uint c) = Num (33 * x + uint c)"
    using b nn by (intro js_round_exact) simp
  have step: "js_plus (js_times33 (Num x)) (Num (uint c)) = Num (33 * x + uint c)"
    by (simp add: t p)
  show ?case using Cons.IH [OF nn] Cons.prems(2) by (simp add: step)
qed

lemma djb2_exact_below: "djb2_exact s < 2 ^ 53 \<Longrightarrow> djb2_double s = Num (djb2_exact s)"
  unfolding djb2_double_def djb2_exact_def by (rule foldl_exact_below) simp_all

lemma fastHash_exact_short:
  "s \<noteq> [] \<Longrightarrow> length s \<le> 7 \<Longrightarrow> fastHash s = Num (djb2_exact s)"
  using fastHashBetween_djb2 [of "length s" s 0] djb2_exact_short [of s]
  by (simp add: fastHash_def)

lemma fastHash_abcdefghi:
  "fastHash (str ''abcdefghi'') = Num 249880927702717728"
  "djb2_exact (str ''abcdefghi'') = 249880927702717746"
  by code_simp+

text \<open>
  C8, as the code has it.  For every string that is not empty \<open>fastHash\<close> is the djb2
  fold (seed 5381, multiplier 33) over its character codes in double arithmetic, every
  product and every sum rounded to the nearest double.  It is the recurrence
  \<open>h \<leftarrow> 33 * h + c\<close> over the integers whenever that value is below \<open>2 ^ 53\<close>, so for
  every string of up to seven code units, and it is not at \<open>abcdefghi\<close>.  For the empty
  string \<open>fastHash\<close> returns 0.  \<open>fastHashBetween s b e\<close> is the same fold over the code
  units at \<open>[b, e)\<close> for every range that ends within the string.
\<close>

theorem fastHash_djb2_nonempty:
  "(s \<noteq> [] \<longrightarrow> fastHash s = djb2_double s)
   \<and> (s \<noteq> [] \<and> djb2_exact s < 2 ^ 53 \<longrightarrow> fastHash s = Num (djb2_exact s))
   \<and> (s \<noteq> [] \<and> length s \<le> 7 \<longrightarrow> fastHash s = Num (djb2_exact s))
   \<and> fastHash [] = Num 0
   \<and> (e \<le> length s \<longrightarrow> fastHashBetween s b e = djb2_double (take (e - b) (drop b s)))
   \<and> (e \<le> length s \<and> djb2_exact (take (e - b) (drop b s)) < 2 ^ 53 \<longrightarrow>
        fastHashBetween s b e = Num (djb2_exact (take (e - b) (drop b s))))
   \<and> fastHash (str ''abcdefghi'') \<noteq> Num (djb2_exact (str ''abcdefghi''))"
proof -
  have a: "s \<noteq> [] \<longrightarrow> fastHash s = djb2_double s"
    by (simp add: fastHash_def fastHashBetween_djb2)
  have b: "e \<le> length s \<longrightarrow> fastHashBetween s b e = djb2_double (take (e - b) (drop b s))"
    by (simp add: fastHashBetween_djb2)
  have c: "fastHash [] = Num 0" by (simp add: fastHash_def)
  have d: "fastHash (str ''abcdefghi'') \<noteq> Num (djb2_exact (str ''abcdefghi''))"
    unfolding fastHash_abcdefghi by simp
  show ?thesis
    using a b c d djb2_exact_below [of s] djb2_exact_short [of s]
      djb2_exact_below [of "take (e - b) (drop b s)"]
    by simp
qed

theorem fastHash_djb2_nonempty_witness:
  "str ''ab'' \<noteq> [] \<and> length (str ''ab'') \<le> 7
   \<and> fastHash (str ''ab'') = Num (djb2_exact (str ''ab''))
   \<and> djb2_exact (str ''ab'') = 5863208
   \<and> (3::nat) \<le> length (str ''abcd'')
   \<and> djb2_exact (take (3 - 1) (drop 1 (str ''abcd''))) < 2 ^ 53
   \<and> fastHashBetween (str ''abcd'') 1 3 = Num (djb2_exact (take (3 - 1) (drop 1 (str ''abcd''))))
   \<and> djb2_exact (take (3 - 1) (drop 1 (str ''abcd''))) = 5863242
   \<and> str ''abcdefghi'' \<noteq> []
   \<and> fastHash (str ''abcdefghi'') = djb2_double (str ''abcdefghi'')
   \<and> djb2_double (str ''abcdefghi'') = Num 249880927702717728"
proof -
  have e1: "djb2_exact (str ''ab'') = 5863208"
    by (simp add: djb2_exact_def str_def)
  have e2: "djb2_exact (take (3 - 1) (drop 1 (str ''abcd''))) = 5863242"
    by (simp add: djb2_exact_def str_def)
  have n1: "str ''ab'' \<noteq> [] \<and> length (str ''ab'') \<le> 7" by (simp add: str_def)
  have n2: "(3::nat) \<le> length (str ''abcd'')" by (simp add: str_def)
  have n3: "str ''abcdefghi'' \<noteq> []" by (simp add: str_def)
  have d9: "djb2_double (str ''abcdefghi'') = Num 249880927702717728" by code_simp
  have lt: "djb2_exact (take (3 - 1) (drop 1 (str ''abcd''))) < 2 ^ 53"
    unfolding e2 by simp
  have w1: "fastHash (str ''ab'') = Num (djb2_exact (str ''ab''))"
    using fastHash_djb2_nonempty [of "str ''ab''"] n1 by blast
  have w2: "fastHashBetween (str ''abcd'') 1 3
              = Num (djb2_exact (take (3 - 1) (drop 1 (str ''abcd''))))"
    using fastHash_djb2_nonempty [where e = 3 and s = "str ''abcd''" and b = 1] n2 lt by blast
  have w3: "fastHash (str ''abcdefghi'') = djb2_double (str ''abcdefghi'')"
    using fastHash_djb2_nonempty [of "str ''abcdefghi''"] n3 by blast
  show ?thesis
    using n1 w1 e1 n2 lt w2 e2 n3 w3 d9 by blast
qed

text \<open>
  C8, as the claim states it, fails at the empty string, where the fold gives the seed
  5381 and \<open>fastHash\<close> returns 0, and at \<open>abcdefghi\<close>, where the recurrence gives
  249880927702717746 and \<open>fastHash\<close>, after rounding, 249880927702717728.
\<close>

theorem fastHash_empty_counterexample:
  "fastHash [] = Num 0 \<and> djb2_exact [] = 5381 \<and> fastHash [] \<noteq> Num (djb2_exact [])
   \<and> fastHash (str ''abcdefghi'') = Num 249880927702717728
   \<and> djb2_exact (str ''abcdefghi'') = 249880927702717746
   \<and> fastHash (str ''abcdefghi'') \<noteq> Num (djb2_exact (str ''abcdefghi''))"
proof -
  have a: "fastHash [] = Num 0" by (simp add: fastHash_def)
  have b: "djb2_exact [] = 5381" by (simp add: djb2_exact_def)
  show ?thesis unfolding a b fastHash_abcdefghi by simp
qed


section \<open>The shortcut phase of matchAll\<close>

lemma matchIndexes_map_filter:
  "matchIndexes eng rmatch req idxs result
     = result @ List.map_filter (acceptCandidate eng rmatch req) idxs"
  unfolding matchIndexes_def
proof (induction idxs arbitrary: result)
  case Nil
  then show ?case by simp
next
  case (Cons i idxs)
  show ?case
    by (cases "ruleStorage eng i")
       (simp_all add: Cons.IH acceptCandidate_def)
qed

lemma map_filter_append:
  "List.map_filter f (xs @ ys) = List.map_filter f xs @ List.map_filter f ys"
  by (simp add: List.map_filter_def)

lemma map_filter_concat:
  "List.map_filter f (concat xss) = concat (map (List.map_filter f) xss)"
  by (induction xss) (simp_all add: map_filter_append)

lemma matchShortcutsLookupTable_loop_windows:
  "urlLen \<le> length (urlLowercase req) \<Longrightarrow>
   matchShortcutsLookupTable_loop eng rmatch req urlLen i result
     = result @ concat (map (\<lambda>k. List.map_filter (acceptCandidate eng rmatch req)
                                   (getOrEmpty (shortcutsLookupTable eng)
                                      (Num (djb2_exact (take 5 (drop k (urlLowercase req)))))))
                            [i..<urlLen - 4])"
proof (induction eng rmatch req urlLen i result rule: matchShortcutsLookupTable_loop.induct)
  case (1 eng rmatch req urlLen i result)
  let ?u = "urlLowercase req"
  let ?body = "\<lambda>k. List.map_filter (acceptCandidate eng rmatch req)
                     (getOrEmpty (shortcutsLookupTable eng) (Num (djb2_exact (take 5 (drop k ?u)))))"
  show ?case
  proof (cases "int i \<le> int urlLen - int SHORTCUT_LENGTH")
    case True
    then have lt: "i < urlLen - 4" by (simp add: SHORTCUT_LENGTH_def)
    then have inb: "i + 5 \<le> length ?u" using "1.prems" by simp
    have h: "fastHashBetween ?u i (i + SHORTCUT_LENGTH) = Num (djb2_exact (take 5 (drop i ?u)))"
      using inb fastHashBetween_djb2 [of "i + 5" ?u i] djb2_exact_short [of "take 5 (drop i ?u)"]
      by (simp add: SHORTCUT_LENGTH_def)
    define result' where "result' = (case shortcutsLookupTable eng (fastHashBetween ?u i (i + SHORTCUT_LENGTH)) of
                          None \<Rightarrow> result
                        | Some rulesIndexes \<Rightarrow> matchIndexes eng rmatch req rulesIndexes result)"
    have r': "result' = result @ ?body i"
      unfolding result'_def h
      by (cases "shortcutsLookupTable eng (Num (djb2_exact (take 5 (drop i ?u))))")
         (simp_all add: getOrEmpty_def matchIndexes_map_filter)
    have "matchShortcutsLookupTable_loop eng rmatch req urlLen i result
            = matchShortcutsLookupTable_loop eng rmatch req urlLen (i + 1) result'"
      using True by (subst matchShortcutsLookupTable_loop.simps) (simp add: result'_def Let_def)
    also have "\<dots> = result' @ concat (map ?body [i + 1..<urlLen - 4])"
      using "1.IH" [OF True refl refl "1.prems"] by (simp add: result'_def)
    finally show ?thesis using lt by (simp add: r' upt_rec [of i])
  next
    case False
    then have "\<not> i < urlLen - 4" by (simp add: SHORTCUT_LENGTH_def)
    then show ?thesis using False by (subst matchShortcutsLookupTable_loop.simps) simp
  qed
qed

lemma map_upto_nat: "map (\<lambda>i. f (nat i)) [0 .. int n - 1] = map f [0..<n]"
proof (induction n)
  case 0
  then show ?case by simp
next
  case (Suc n)
  have "[0 .. int (Suc n) - 1] = [0 .. int n - 1] @ [int n]"
    using upto_rec2 [of 0 "int n"] by simp
  then show ?case using Suc by simp
qed

lemma urlWindows_nat:
  "urlWindows u = map (\<lambda>k. take 5 (drop k u)) [0..<min (length u) 4096 - 4]"
proof (cases "4 \<le> min (length u) 4096")
  case True
  then have e: "int (min (length u) 4096) - 5 = int (min (length u) 4096 - 4) - 1"
    by linarith
  show ?thesis
    unfolding urlWindows_def e by (rule map_upto_nat)
next
  case False
  then have "int (min (length u) 4096) - 5 < 0" by linarith
  then have a: "[0 .. int (min (length u) 4096) - 5] = []" by (rule upto_empty)
  have b: "[0..<min (length u) 4096 - 4] = []" using False by simp
  show ?thesis unfolding urlWindows_def a b by simp
qed

lemma urlWindows_take: "urlWindows (take 4096 u) = urlWindows u"
proof -
  have w: "take 5 (drop k (take 4096 u)) = take 5 (drop k u)" if "k < min (length u) 4096 - 4" for k
  proof -
    have "drop k (take 4096 u) = take (4096 - k) (drop k u)" by (simp add: drop_take)
    moreover have "min 5 (4096 - k) = 5" using that by linarith
    ultimately show ?thesis by (simp only: take_take)
  qed
  have l: "min (length (take 4096 u)) 4096 = min (length u) 4096" by simp
  show ?thesis
    unfolding urlWindows_nat l by (rule map_cong) (auto simp: w)
qed

lemma matchShortcutsLookupTable_candidates:
  "matchShortcutsLookupTable eng rmatch req
     = List.map_filter (acceptCandidate eng rmatch req)
         (shortcutCandidates eng (urlLowercase req))"
proof -
  let ?u = "urlLowercase req"
  have len: "(if length ?u > MAX_URL_LENGTH then MAX_URL_LENGTH else length ?u) = min (length ?u) 4096"
    by (simp add: MAX_URL_LENGTH_def)
  have "matchShortcutsLookupTable eng rmatch req
          = matchShortcutsLookupTable_loop eng rmatch req (min (length ?u) 4096) 0 []"
    unfolding matchShortcutsLookupTable_def Let_def len ..
  also have "\<dots> = List.map_filter (acceptCandidate eng rmatch req) (shortcutCandidates eng ?u)"
    by (subst matchShortcutsLookupTable_loop_windows)
       (simp_all add: shortcutCandidates_def urlWindows_nat map_filter_concat comp_def)
  finally show ?thesis .
qed

lemma shortcutCandidates_take:
  "shortcutCandidates eng (take 4096 u) = shortcutCandidates eng u"
  by (simp add: shortcutCandidates_def urlWindows_take)

text \<open>
  C6, as the code has it.  The shortcut phase retrieves and matches against the
  request, in order, exactly the candidates that the shortcuts table holds under the
  djb2 hashes of the windows \<open>[i, i + 5)\<close> of the lower-cased URL for
  \<open>0 \<le> i \<le> min (length, 4096) - 5\<close>; these windows, and with them the candidates, are
  those of the URL cut to its first 4096 code units, whatever follows.  Each candidate
  is matched against the request as it is, with its whole URL.
\<close>

theorem matchShortcutsLookupTable_windows:
  "matchShortcutsLookupTable eng rmatch req
     = List.map_filter (acceptCandidate eng rmatch req)
         (shortcutCandidates eng (urlLowercase req))
   \<and> urlWindows (urlLowercase req) = urlWindows (take 4096 (urlLowercase req))
   \<and> shortcutCandidates eng (urlLowercase req) = shortcutCandidates eng (take 4096 (urlLowercase req))
   \<and> matchShortcutsLookupTable eng rmatch req
     = List.map_filter (acceptCandidate eng rmatch req)
         (shortcutCandidates eng (take 4096 (urlLowercase req)))"
  by (simp add: matchShortcutsLookupTable_candidates shortcutCandidates_take urlWindows_take)

lemma findPiece_absent: "z \<in> set p \<Longrightarrow> z \<notin> set u \<Longrightarrow> findPiece p u = None"
proof (induction u)
  case Nil
  then show ?case by auto
next
  case (Cons c cs)
  have "take (length p) (c # cs) \<noteq> p"
  proof
    assume "take (length p) (c # cs) = p"
    then have "set p \<subseteq> set (c # cs)" by (metis set_take_subset)
    then show False using Cons.prems by blast
  qed
  then show ?case using Cons by simp
qed

lemma findPiece_self: "p \<noteq> [] \<Longrightarrow> findPiece p p = Some []"
  by (cases p) simp_all

lemma findPiece_replicate:
  "p \<noteq> [] \<Longrightarrow> hd p \<noteq> y \<Longrightarrow> findPiece p (replicate n y @ p) = Some []"
proof (induction n)
  case 0
  then show ?case by (simp add: findPiece_self)
next
  case (Suc n)
  obtain c cs where p: "p = c # cs" using Suc.prems(1) by (cases p) auto
  have "take (length p) (y # replicate n y @ p) \<noteq> p"
    using Suc.prems(2) by (simp add: p)
  then show ?case using Suc by simp
qed

lemma filler_facts: "length filler = 9989" "set filler = {121}"
  by (simp_all add: filler_def)

lemma starEngine_fields:
  "shortcutsLookupTable starEngine = [Num (djb2_exact (str ''abcde'')) \<mapsto> [0]]"
  "ruleStorage starEngine = (\<lambda>i. if i = 0 then Some starRule else None)"
proof -
  have g: "getRuleShortcuts starRule = Some [str ''abcde'']"
    by (simp add: starRule_def getRuleShortcuts_def isAnyURLShortcut_def indexOf_is_0_def
        SHORTCUT_LENGTH_def str_def getRuleShortcuts_loop.simps substring_def Let_def)
  have f: "fastHash (str ''abcde'') = Num (djb2_exact (str ''abcde''))"
    by (rule fastHash_exact_short) (simp_all add: str_def)
  show "shortcutsLookupTable starEngine = [Num (djb2_exact (str ''abcde'')) \<mapsto> [0]]"
    by (simp add: starEngine_def addRuleToShortcutsTable_def g leastUsedShortcut_def f
        newEngine_def Let_def)
  show "ruleStorage starEngine = (\<lambda>i. if i = 0 then Some starRule else None)"
    by (simp add: starEngine_def addRuleToShortcutsTable_def g leastUsedShortcut_def f
        newEngine_def Let_def)
qed

lemma long_url_facts:
  "length (urlLowercase longRequest) = 10000"
  "take 5 (urlLowercase longRequest) = str ''abcde''"
  "urlLowercase truncatedRequest = str ''abcdef'' @ take 4090 filler"
  by (simp_all add: longRequest_def truncatedRequest_def filler_facts str_def)

lemma wildcardMatch_long: "wildcardMatch starRule longRequest"
proof -
  have s: "split (ruleText starRule) star = [str ''abcdef'', str ''zzzzz'']"
    by (simp add: starRule_def star_def str_def)
  have a: "findPiece (str ''abcdef'') (urlLowercase longRequest) = Some (filler @ str ''zzzzz'')"
    by (simp add: longRequest_def str_def)
  have b: "findPiece (str ''zzzzz'') (filler @ str ''zzzzz'') = Some []"
    unfolding filler_def by (rule findPiece_replicate) (simp_all add: str_def)
  show ?thesis by (simp add: wildcardMatch_def s a b)
qed

lemma wildcardMatch_truncated: "\<not> wildcardMatch starRule truncatedRequest"
proof -
  have s: "split (ruleText starRule) star = [str ''abcdef'', str ''zzzzz'']"
    by (simp add: starRule_def star_def str_def)
  have a: "findPiece (str ''abcdef'') (urlLowercase truncatedRequest) = Some (take 4090 filler)"
    by (simp add: long_url_facts str_def)
  have "set (take 4090 filler) \<subseteq> {121}"
    using set_take_subset [of 4090 filler] by (simp add: filler_facts)
  then have "(122 :: 16 word) \<notin> set (take 4090 filler)" by auto
  then have b: "findPiece (str ''zzzzz'') (take 4090 filler) = None"
    by (intro findPiece_absent [of 122]) (simp_all add: str_def)
  show ?thesis by (simp add: wildcardMatch_def s a b)
qed

lemma map_filter_all_None: "(\<And>x. f x = None) \<Longrightarrow> List.map_filter f xs = []"
  by (induction xs) simp_all

lemma map_filter_member: "x \<in> set xs \<Longrightarrow> f x = Some y \<Longrightarrow> y \<in> set (List.map_filter f xs)"
  by (induction xs) (auto split: option.splits)

text \<open>
  C6, as the claim states it, fails at a URL of 10,000 code units: the rule
  \<open>abcdef*zzzzz\<close> is a candidate through the window \<open>abcde\<close> and matches the whole URL,
  so the shortcut phase returns it; on the URL cut to 4096 code units the candidates
  are the same and the phase returns nothing, for \<open>zzzzz\<close> is cut off.
\<close>

theorem matchShortcutsLookupTable_whole_url_counterexample:
  "length (urlLowercase longRequest) = 10000
   \<and> urlLowercase truncatedRequest = take 4096 (urlLowercase longRequest)
   \<and> shortcutCandidates starEngine (urlLowercase longRequest)
       = shortcutCandidates starEngine (urlLowercase truncatedRequest)
   \<and> starRule \<in> set (matchShortcutsLookupTable starEngine wildcardMatch longRequest)
   \<and> matchShortcutsLookupTable starEngine wildcardMatch truncatedRequest = []
   \<and> matchShortcutsLookupTable starEngine wildcardMatch longRequest
       \<noteq> matchShortcutsLookupTable starEngine wildcardMatch truncatedRequest"
proof -
  let ?u = "urlLowercase longRequest"
  have tr: "urlLowercase truncatedRequest = take 4096 ?u"
    by (simp add: truncatedRequest_def)
  have c: "shortcutCandidates starEngine ?u = shortcutCandidates starEngine (urlLowercase truncatedRequest)"
    unfolding tr shortcutCandidates_def by (simp add: urlWindows_take)
  have w: "str ''abcde'' \<in> set (urlWindows ?u)"
  proof -
    have "0 \<in> set [0..<min (length ?u) 4096 - 4]"
      by (simp add: long_url_facts)
    then have "take 5 (drop 0 ?u) \<in> (\<lambda>k. take 5 (drop k ?u)) ` set [0..<min (length ?u) 4096 - 4]"
      by (rule imageI)
    then have "take 5 (drop 0 ?u) \<in> set (urlWindows ?u)"
      unfolding urlWindows_nat by simp
    then show ?thesis by (simp add: long_url_facts)
  qed
  have "0 \<in> set (getOrEmpty (shortcutsLookupTable starEngine) (Num (djb2_exact (str ''abcde''))))"
    by (simp add: starEngine_fields getOrEmpty_def)
  then have cand: "0 \<in> set (shortcutCandidates starEngine ?u)"
    unfolding shortcutCandidates_def using w by auto
  have acc: "acceptCandidate starEngine wildcardMatch longRequest 0 = Some starRule"
    by (simp add: acceptCandidate_def starEngine_fields wildcardMatch_long)
  have m: "starRule \<in> set (matchShortcutsLookupTable starEngine wildcardMatch longRequest)"
    unfolding matchShortcutsLookupTable_candidates using cand acc by (rule map_filter_member)
  have none: "acceptCandidate starEngine wildcardMatch truncatedRequest i = None" for i
    by (simp add: acceptCandidate_def starEngine_fields wildcardMatch_truncated)
  have e: "matchShortcutsLookupTable starEngine wildcardMatch truncatedRequest = []"
    unfolding matchShortcutsLookupTable_candidates using none by (rule map_filter_all_None)
  have ne: "matchShortcutsLookupTable starEngine wildcardMatch longRequest
       \<noteq> matchShortcutsLookupTable starEngine wildcardMatch truncatedRequest"
    using m e by auto
  show ?thesis using long_url_facts(1) tr c m e ne by blast
qed


section \<open>The order of the subdomains\<close>

lemma getSubdomains_loop_quirk:
  "i \<le> length parts \<Longrightarrow>
   getSubdomains_loop parts i (quirkJoin (drop i parts)) subs
     = subs @ map (\<lambda>k. quirkJoin (drop k parts)) (rev [0..<i])"
proof (induction i arbitrary: subs)
  case 0
  then show ?case by simp
next
  case (Suc i)
  then have lt: "i < length parts" by simp
  have d: "drop i parts = parts ! i # drop (Suc i) parts"
    using lt by (simp add: Cons_nth_drop_Suc)
  have q: "(if quirkJoin (drop (Suc i) parts) = [] then parts ! i
            else parts ! i @ [dot] @ quirkJoin (drop (Suc i) parts)) = quirkJoin (drop i parts)"
    by (simp add: d quirkJoin_def)
  show ?case
    using Suc.IH [of "subs @ [quirkJoin (drop i parts)]"] lt
    by (simp add: q Let_def del: append.simps)
qed

lemma split_nonempty: "split h d \<noteq> []"
  by (induction h) (auto split: list.splits)

lemma joinDots_split: "joinDots (split h dot) = h"
proof (induction h)
  case Nil
  then show ?case by simp
next
  case (Cons c cs)
  obtain p ps where s: "split cs dot = p # ps"
    using split_nonempty [of cs dot] by (cases "split cs dot") auto
  show ?case using Cons s by (cases ps) auto
qed

lemma last_split_nonempty:
  "h \<noteq> [] \<Longrightarrow> last h \<noteq> d \<Longrightarrow> last (split h d) \<noteq> []"
proof (induction h)
  case Nil
  then show ?case by simp
next
  case (Cons c cs)
  show ?case
  proof (cases "cs = []")
    case True
    then show ?thesis using Cons.prems by simp
  next
    case False
    then have "last (split cs d) \<noteq> []" using Cons by simp
    then show ?thesis using split_nonempty [of cs d]
      by (auto split: list.splits)
  qed
qed

lemma quirkJoin_Cons:
  "quirkJoin (p # ps) = (if quirkJoin ps = [] then p else p @ [dot] @ quirkJoin ps)"
  by (simp add: quirkJoin_def)

lemma quirkJoin_joinDots:
  "ps \<noteq> [] \<Longrightarrow> last ps \<noteq> [] \<Longrightarrow> quirkJoin ps = joinDots ps \<and> quirkJoin ps \<noteq> []"
proof (induction ps rule: joinDots.induct)
  case 1
  then show ?case by simp
next
  case (2 p)
  then show ?case by (simp add: quirkJoin_def)
next
  case (3 p q ps)
  have "last (q # ps) \<noteq> []" using "3.prems" by simp
  then have "quirkJoin (q # ps) = joinDots (q # ps) \<and> quirkJoin (q # ps) \<noteq> []"
    using "3.IH" by blast
  then show ?case by (auto simp: quirkJoin_Cons [of p])
qed

lemma joinDots_drop_suffix:
  "suffix (joinDots (drop k ps)) (joinDots ps)"
proof (induction ps arbitrary: k rule: joinDots.induct)
  case 1
  then show ?case by simp
next
  case (2 p)
  then show ?case by (cases k) simp_all
next
  case (3 p q ps)
  show ?case
  proof (cases k)
    case 0
    then show ?thesis by simp
  next
    case (Suc j)
    have "suffix (joinDots (drop j (q # ps))) (joinDots (q # ps))" using 3 by simp
    then have "suffix (joinDots (drop j (q # ps))) (p @ [dot] @ joinDots (q # ps))"
      by (metis suffix_appendI)
    then show ?thesis using Suc by simp
  qed
qed

lemma getSubdomains_quirk:
  "getSubdomains h = map (\<lambda>k. quirkJoin (drop k (split h dot))) (rev [0..<length (split h dot)])"
proof -
  have "quirkJoin (drop (length (split h dot)) (split h dot)) = []"
    by (simp add: quirkJoin_def)
  then show ?thesis
    using getSubdomains_loop_quirk [of "length (split h dot)" "split h dot" "[]"]
    by (simp add: getSubdomains_def Let_def)
qed

lemma getSubdomains_reverse:
  assumes "hostname = [] \<or> last hostname \<noteq> dot"
  shows "getSubdomains hostname = rev (suffixesMostSpecificFirst hostname)
         \<and> hd (getSubdomains hostname) = last (split hostname dot)
         \<and> last (getSubdomains hostname) = hostname
         \<and> list_all (\<lambda>d. suffix d hostname) (getSubdomains hostname)"
proof -
  let ?ps = "split hostname dot"
  let ?n = "length ?ps"
  have ne: "?ps \<noteq> []" by (rule split_nonempty)
  have lastne: "hostname \<noteq> [] \<Longrightarrow> last ?ps \<noteq> []"
    using assms last_split_nonempty by blast
  have qj: "quirkJoin (drop k ?ps) = joinDots (drop k ?ps)" if "k < ?n" for k
  proof (cases "hostname = []")
    case True
    then show ?thesis using that by (simp add: quirkJoin_def)
  next
    case False
    have "drop k ?ps \<noteq> []" using that by simp
    moreover have "last (drop k ?ps) \<noteq> []" using that lastne [OF False] by simp
    ultimately show ?thesis using quirkJoin_joinDots by blast
  qed
  have main: "getSubdomains hostname = rev (suffixesMostSpecificFirst hostname)"
    unfolding getSubdomains_quirk suffixesMostSpecificFirst_def Let_def rev_map
    by (rule map_cong) (auto simp: qj)
  have n0: "0 < ?n" using ne by simp
  have upt: "[0..<?n] = 0 # [1..<?n]" using n0 by (simp add: upt_rec)
  have hd_s: "hd (suffixesMostSpecificFirst hostname) = hostname"
    unfolding suffixesMostSpecificFirst_def Let_def
    by (subst upt) (simp add: joinDots_split)
  have sne: "suffixesMostSpecificFirst hostname \<noteq> []"
    unfolding suffixesMostSpecificFirst_def Let_def using n0 by simp
  have upt2: "[0..<?n] = [0..<?n - 1] @ [?n - 1]"
    using n0 by (metis Suc_diff_1 upt_Suc_append zero_le)
  have dl: "drop (?n - 1) ?ps = [last ?ps]"
    using ne by (metis One_nat_def append_butlast_last_id append_eq_conv_conj length_butlast)
  have last_s: "last (suffixesMostSpecificFirst hostname) = last ?ps"
    unfolding suffixesMostSpecificFirst_def Let_def
    by (subst upt2) (simp add: dl [simplified])
  have c2: "hd (getSubdomains hostname) = last ?ps"
    using main sne last_s by (simp add: hd_rev)
  have c3: "last (getSubdomains hostname) = hostname"
    using main sne hd_s by (simp add: last_rev)
  have c4: "list_all (\<lambda>d. suffix d hostname) (getSubdomains hostname)"
    unfolding main suffixesMostSpecificFirst_def Let_def list_all_iff
    using joinDots_drop_suffix [of _ ?ps] by (auto simp: joinDots_split)
  show ?thesis using main c2 c3 c4 by simp
qed

lemma matchDomains_foldl:
  "foldl (\<lambda>result domain.
            (case domainsLookupTable eng (fastHash domain) of
               None \<Rightarrow> result
             | Some rulesIndexes \<Rightarrow> matchIndexes eng rmatch req rulesIndexes result))
         acc ds
     = acc @ concat (map (\<lambda>d. List.map_filter (acceptCandidate eng rmatch req)
                                 (getOrEmpty (domainsLookupTable eng) (fastHash d))) ds)"
proof (induction ds arbitrary: acc)
  case Nil
  then show ?case by simp
next
  case (Cons d ds)
  show ?case
    by (cases "domainsLookupTable eng (fastHash d)")
       (simp_all add: Cons.IH getOrEmpty_def matchIndexes_map_filter)
qed

lemma matchDomainsLookupTable_order:
  "sourceHostname req = Some hostname \<Longrightarrow> hostname \<noteq> [] \<Longrightarrow>
   matchDomainsLookupTable eng rmatch req
     = concat (map (\<lambda>d. List.map_filter (acceptCandidate eng rmatch req)
                            (getOrEmpty (domainsLookupTable eng) (fastHash d)))
                   (getSubdomains hostname))"
  by (simp add: matchDomainsLookupTable_def matchDomains_foldl)

text \<open>
  C3, as the code has it.  The claim says the suffixes of the source hostname come
  most specific first.  \<open>getSubdomains\<close> builds them from the last label on, so for a
  hostname that does not end in a dot it returns the reverse of that list: the
  top-level domain first, the full hostname last, every element a suffix of the
  hostname; and the domain phase retrieves and matches the candidates of the domains
  table in this order.
\<close>

theorem getSubdomains_tld_first:
  assumes "hostname = [] \<or> last hostname \<noteq> dot"
  shows "getSubdomains hostname = rev (suffixesMostSpecificFirst hostname)
         \<and> hd (getSubdomains hostname) = last (split hostname dot)
         \<and> last (getSubdomains hostname) = hostname
         \<and> list_all (\<lambda>d. suffix d hostname) (getSubdomains hostname)
         \<and> (sourceHostname req = Some hostname \<and> hostname \<noteq> [] \<longrightarrow>
              matchDomainsLookupTable eng rmatch req
                = concat (map (\<lambda>d. List.map_filter (acceptCandidate eng rmatch req)
                                       (getOrEmpty (domainsLookupTable eng) (fastHash d)))
                              (rev (suffixesMostSpecificFirst hostname))))"
proof -
  have a: "getSubdomains hostname = rev (suffixesMostSpecificFirst hostname)
         \<and> hd (getSubdomains hostname) = last (split hostname dot)
         \<and> last (getSubdomains hostname) = hostname
         \<and> list_all (\<lambda>d. suffix d hostname) (getSubdomains hostname)"
    using assms by (rule getSubdomains_reverse)
  have b: "sourceHostname req = Some hostname \<and> hostname \<noteq> [] \<longrightarrow>
              matchDomainsLookupTable eng rmatch req
                = concat (map (\<lambda>d. List.map_filter (acceptCandidate eng rmatch req)
                                       (getOrEmpty (domainsLookupTable eng) (fastHash d)))
                              (rev (suffixesMostSpecificFirst hostname)))"
    using matchDomainsLookupTable_order [of req hostname eng rmatch] a by metis
  show ?thesis using a b by blast
qed

lemma fastHash_examples:
  "fastHash (str ''bc'') = Num 5863242" "fastHash (str ''a.bc'') = Num 6384980217"
  by (simp_all add: fastHash_def fastHashBetween_def fastHashBetween_loop.simps str_def
      charCodeAt_def js_times33_def js_round_def)

theorem getSubdomains_tld_first_witness:
  "(str ''a.bc'' = [] \<or> last (str ''a.bc'') \<noteq> dot)
   \<and> getSubdomains (str ''a.bc'') = [str ''bc'', str ''a.bc'']
   \<and> hd (getSubdomains (str ''a.bc'')) = str ''bc''
   \<and> last (getSubdomains (str ''a.bc'')) = str ''a.bc''
   \<and> matchDomainsLookupTable domainsEngine (\<lambda>r q. True) requestFromABc = [ruleForBc, ruleForABc]"
proof -
  have h: "str ''a.bc'' = [] \<or> last (str ''a.bc'') \<noteq> dot"
    by (simp add: str_def dot_def)
  note t = getSubdomains_tld_first [OF h, of requestFromABc domainsEngine "\<lambda>r q. True"]
  have s: "rev (suffixesMostSpecificFirst (str ''a.bc'')) = [str ''bc'', str ''a.bc'']"
    by (simp add: suffixesMostSpecificFirst_def str_def dot_def Let_def upt_rec)
  have sp: "last (split (str ''a.bc'') dot) = str ''bc''"
    by (simp add: str_def dot_def)
  have ne: "str ''a.bc'' \<noteq> []" by (simp add: str_def)
  have src: "sourceHostname requestFromABc = Some (str ''a.bc'')"
    by (simp add: requestFromABc_def)
  have m: "matchDomainsLookupTable domainsEngine (\<lambda>r q. True) requestFromABc
             = [ruleForBc, ruleForABc]"
    using t src ne unfolding s
    by (simp add: fastHash_examples domainsEngine_def getOrEmpty_def acceptCandidate_def
        List.map_filter_def)
  show ?thesis using h t m unfolding s sp by simp
qed

text \<open>
  C3, as the claim states it, fails at \<open>www.example.org\<close>: the first subdomain is
  \<open>org\<close>, not the full hostname.
\<close>

theorem getSubdomains_order_counterexample:
  "getSubdomains (str ''www.example.org'')
     = [str ''org'', str ''example.org'', str ''www.example.org'']
   \<and> suffixesMostSpecificFirst (str ''www.example.org'')
     = [str ''www.example.org'', str ''example.org'', str ''org'']
   \<and> getSubdomains (str ''www.example.org'') \<noteq> suffixesMostSpecificFirst (str ''www.example.org'')
   \<and> hd (getSubdomains (str ''www.example.org'')) \<noteq> str ''www.example.org''"
  by (simp add: getSubdomains_def suffixesMostSpecificFirst_def str_def dot_def Let_def upt_rec)


section \<open>The cosmetic lookup table\<close>

lemma byHostname_foldl:
  "\<not> isWhitelist rule \<Longrightarrow>
   \<forall>h rs. m h = Some rs \<longrightarrow> list_all (\<lambda>r. \<not> isWhitelist r) rs \<Longrightarrow>
   \<forall>h rs. foldl (\<lambda>m domain. m(domain \<mapsto> getOrEmpty m domain @ [rule])) m domains h = Some rs
          \<longrightarrow> list_all (\<lambda>r. \<not> isWhitelist r) rs"
proof (induction domains arbitrary: m)
  case Nil
  then show ?case by simp
next
  case (Cons d ds)
  have "\<forall>h rs. (m(d \<mapsto> getOrEmpty m d @ [rule])) h = Some rs \<longrightarrow> list_all (\<lambda>r. \<not> isWhitelist r) rs"
    using Cons.prems by (auto simp: getOrEmpty_def split: option.splits)
  then show ?case using Cons.IH [OF Cons.prems(1)] by simp
qed

lemma addRule_invariant:
  assumes "whitelistOnlyInWhitelist t"
  shows "whitelistOnlyInWhitelist (addRule isWildcardDomain t rule)"
proof (cases "isWhitelist rule")
  case True
  then show ?thesis using assms
    by (auto simp: whitelistOnlyInWhitelist_def addRule_def getOrEmpty_def split: option.splits)
next
  case nw: False
  show ?thesis
  proof (cases "isGeneric rule")
    case True
    then show ?thesis using assms nw
      by (simp add: whitelistOnlyInWhitelist_def addRule_def)
  next
    case ng: False
    show ?thesis
    proof (cases "getPermittedDomains rule")
      case None
      then show ?thesis using assms nw ng by (simp add: addRule_def)
    next
      case (Some domains)
      show ?thesis
      proof (cases "list_ex isWildcardDomain domains")
        case True
        then show ?thesis using assms nw ng Some
          by (simp add: whitelistOnlyInWhitelist_def addRule_def)
      next
        case False
        have "\<forall>h rs. foldl (\<lambda>m domain. m(domain \<mapsto> getOrEmpty m domain @ [rule])) (byHostname t) domains h = Some rs
          \<longrightarrow> list_all (\<lambda>r. \<not> isWhitelist r) rs"
          using assms nw by (intro byHostname_foldl) (simp_all add: whitelistOnlyInWhitelist_def)
        then show ?thesis using assms nw ng Some False
          by (simp add: whitelistOnlyInWhitelist_def addRule_def)
      qed
    qed
  qed
qed

lemma foldl_addRule_invariant:
  "whitelistOnlyInWhitelist t \<Longrightarrow> whitelistOnlyInWhitelist (foldl (addRule isWildcardDomain) t rules)"
  by (induction rules arbitrary: t) (simp_all add: addRule_invariant)

lemma buildTable_invariant: "whitelistOnlyInWhitelist (buildTable isWildcardDomain rules)"
  unfolding buildTable_def
  by (rule foldl_addRule_invariant) (simp add: whitelistOnlyInWhitelist_def newCosmeticLookupTable_def)

lemma findByHostname_no_whitelist:
  "list_all (\<lambda>r. \<not> isWhitelist r) (fst (findByHostname cmatch t hostname))"
  by (auto simp: findByHostname_def Let_def list_all_iff split: option.splits)

lemma findByHostname_invariant:
  "whitelistOnlyInWhitelist t \<Longrightarrow> whitelistOnlyInWhitelist (snd (findByHostname cmatch t hostname))"
  by (auto simp: findByHostname_def Let_def whitelistOnlyInWhitelist_def list_all_iff split: option.splits)

lemma addRule_whitelist_mono:
  "x \<in> set (getOrEmpty (whitelist t) c)
   \<Longrightarrow> x \<in> set (getOrEmpty (whitelist (addRule isWildcardDomain t rule)) c)"
  by (auto simp: addRule_def getOrEmpty_def split: option.splits)

lemma addRule_whitelist_adds:
  "isWhitelist rule
   \<Longrightarrow> rule \<in> set (getOrEmpty (whitelist (addRule isWildcardDomain t rule)) (getContent rule))"
  by (simp add: addRule_def getOrEmpty_def)

lemma foldl_addRule_whitelist_mono:
  "x \<in> set (getOrEmpty (whitelist t) c)
   \<Longrightarrow> x \<in> set (getOrEmpty (whitelist (foldl (addRule isWildcardDomain) t rules)) c)"
  by (induction rules arbitrary: t) (simp_all add: addRule_whitelist_mono)

lemma foldl_addRule_whitelist_stored:
  "r \<in> set rules \<Longrightarrow> isWhitelist r
   \<Longrightarrow> r \<in> set (getOrEmpty (whitelist (foldl (addRule isWildcardDomain) t rules)) (getContent r))"
proof (induction rules arbitrary: t)
  case Nil
  then show ?case by simp
next
  case (Cons a rules)
  show ?case
  proof (cases "r = a")
    case True
    then show ?thesis
      using Cons.prems(2) by (simp add: foldl_addRule_whitelist_mono addRule_whitelist_adds)
  next
    case False
    then show ?thesis using Cons by simp
  qed
qed

text \<open>
  C10.  For a table built by any sequence of \<open>addRule\<close> calls and any hostname, no
  rule that \<open>findByHostname\<close> returns has its whitelist flag set; the whitelist rules are
  stored only in the whitelist map, and each of them is there under its content.
\<close>

theorem findByHostname_never_whitelist:
  "(\<forall>r \<in> set (fst (findByHostname cmatch (buildTable isWildcardDomain rules) hostname)). \<not> isWhitelist r)
   \<and> whitelistOnlyInWhitelist (buildTable isWildcardDomain rules)
   \<and> (\<forall>r \<in> set rules. isWhitelist r \<longrightarrow>
         r \<in> set (getOrEmpty (whitelist (buildTable isWildcardDomain rules)) (getContent r)))"
proof -
  have "list_all (\<lambda>r. \<not> isWhitelist r)
          (fst (findByHostname cmatch (buildTable isWildcardDomain rules) hostname))"
    by (rule findByHostname_no_whitelist)
  then show ?thesis
    by (simp add: list_all_iff buildTable_invariant foldl_addRule_whitelist_stored buildTable_def [symmetric])
       (simp add: buildTable_def foldl_addRule_whitelist_stored)
qed

lemma exampleTable_fields:
  "byHostname exampleTable = [str ''example.org'' \<mapsto> [hideBanner]]"
  "wildcardRules exampleTable = [hideAd]"
  "genericRules exampleTable = []"
  "whitelist exampleTable = [str ''.banner'' \<mapsto> [allowBanner]]"
  by (simp_all add: exampleTable_def buildTable_def addRule_def newCosmeticLookupTable_def
      hideBanner_def allowBanner_def hideAd_def hasStar_def getOrEmpty_def str_def)

lemma exampleRules_flags:
  "\<not> isWhitelist hideBanner" "\<not> isWhitelist hideAd" "isWhitelist allowBanner"
  by (simp_all add: hideBanner_def hideAd_def allowBanner_def)

theorem findByHostname_never_whitelist_witness:
  "fst (findByHostname (\<lambda>r h. True) (buildTable hasStar [hideBanner, allowBanner, hideAd]) (str ''example.org''))
     = [hideBanner, hideAd]
   \<and> \<not> isWhitelist hideBanner \<and> \<not> isWhitelist hideAd
   \<and> isWhitelist allowBanner
   \<and> allowBanner \<in> set (getOrEmpty (whitelist (buildTable hasStar [hideBanner, allowBanner, hideAd]))
                                    (getContent allowBanner))"
proof -
  note t = findByHostname_never_whitelist
             [of "\<lambda>r h. True" hasStar "[hideBanner, allowBanner, hideAd]" "str ''example.org''"]
  have res: "fst (findByHostname (\<lambda>r h. True) (buildTable hasStar [hideBanner, allowBanner, hideAd])
                    (str ''example.org'')) = [hideBanner, hideAd]"
    unfolding exampleTable_def [symmetric]
    by (simp add: findByHostname_def Let_def exampleTable_fields exampleRules_flags)
  have w: "isWhitelist allowBanner" by (simp add: allowBanner_def)
  have n: "\<not> isWhitelist hideBanner \<and> \<not> isWhitelist hideAd"
    using t unfolding res by simp
  have s: "allowBanner \<in> set (getOrEmpty (whitelist (buildTable hasStar [hideBanner, allowBanner, hideAd]))
                                    (getContent allowBanner))"
    using t w by simp
  show ?thesis using res w n s by blast
qed

text \<open>
  C2.  The claim: two calls of \<open>findByHostname\<close> in a row return equal lists and leave
  the table as it was.  The code on the table built from the three rules above, at
  \<open>example.org\<close>, with a \<open>match\<close> that accepts the hostname: the first call returns the
  hostname's rule and the wildcard rule and leaves the wildcard rule appended to the
  array stored in \<open>byHostname\<close>; the second call returns the wildcard rule twice.
\<close>

theorem findByHostname_mutates_table:
  "fst (findByHostname (\<lambda>r h. True) exampleTable (str ''example.org'')) = [hideBanner, hideAd]
   \<and> fst (findByHostname (\<lambda>r h. True)
            (snd (findByHostname (\<lambda>r h. True) exampleTable (str ''example.org'')))
            (str ''example.org'')) = [hideBanner, hideAd, hideAd]
   \<and> byHostname exampleTable (str ''example.org'') = Some [hideBanner]
   \<and> byHostname (snd (findByHostname (\<lambda>r h. True) exampleTable (str ''example.org'')))
        (str ''example.org'') = Some [hideBanner, hideAd]"
  by (simp add: findByHostname_def Let_def exampleTable_fields exampleRules_flags)


section \<open>The indexes of the scanned rules\<close>

lemma utf8_length_pos: "l \<noteq> [] \<Longrightarrow> 0 < utf8_length l"
  by (induction l rule: utf8_length.induct) auto

lemma scan_Nil: "reader sc = [] \<Longrightarrow> fst (scan createRule isCosmetic sc) = False"
  by (subst scan.simps) (simp add: readNextLine_def)

lemma scan_Cons_accepted:
  assumes "reader sc = l # ls"
    and "acceptedLine createRule isCosmetic (listId sc) (ignoreCosmetic sc) l"
  shows "\<exists>r. scan createRule isCosmetic sc
           = (True, sc\<lparr>reader := ls, currentPos := currentPos sc + utf8_length l,
                        currentRule := Some r, currentRuleIndex := currentPos sc\<rparr>)"
  using assms
  by (subst scan.simps)
     (auto simp: readNextLine_def acceptedLine_def isIgnored_def Let_def split: option.splits)

lemma scan_Cons_skipped:
  assumes "reader sc = l # ls"
    and "\<not> acceptedLine createRule isCosmetic (listId sc) (ignoreCosmetic sc) l"
  shows "scan createRule isCosmetic sc
           = scan createRule isCosmetic (sc\<lparr>reader := ls, currentPos := currentPos sc + utf8_length l\<rparr>)"
  using assms
  by (subst scan.simps)
     (auto simp: readNextLine_def acceptedLine_def isIgnored_def Let_def split: option.splits)

lemma scanAll_offsetsFrom:
  "map (map_option ir_index) (scanAll createRule isCosmetic sc)
     = map Some (offsetsFrom createRule isCosmetic (listId sc) (ignoreCosmetic sc)
                   (currentPos sc) (reader sc))"
proof (induction "reader sc" arbitrary: sc)
  case Nil
  then have "fst (scan createRule isCosmetic sc) = False" by (simp add: scan_Nil)
  then have "scanAll createRule isCosmetic sc = []"
    by (subst scanAll.simps) (auto split: prod.splits)
  then show ?case using Nil by simp
next
  case (Cons l ls)
  have rd: "reader sc = l # ls" using Cons.hyps(2) by simp
  show ?case
  proof (cases "acceptedLine createRule isCosmetic (listId sc) (ignoreCosmetic sc) l")
    case True
    then obtain r where sc: "scan createRule isCosmetic sc
           = (True, sc\<lparr>reader := ls, currentPos := currentPos sc + utf8_length l,
                        currentRule := Some r, currentRuleIndex := currentPos sc\<rparr>)"
      using scan_Cons_accepted [OF rd] by blast
    let ?sc' = "sc\<lparr>reader := ls, currentPos := currentPos sc + utf8_length l,
                        currentRule := Some r, currentRuleIndex := currentPos sc\<rparr>"
    have "scanAll createRule isCosmetic sc = getRule ?sc' # scanAll createRule isCosmetic ?sc'"
      by (subst scanAll.simps) (simp add: sc)
    moreover have "map_option ir_index (getRule ?sc') = Some (currentPos sc)"
      by (simp add: getRule_def)
    moreover have "map (map_option ir_index) (scanAll createRule isCosmetic ?sc')
                    = map Some (offsetsFrom createRule isCosmetic (listId sc) (ignoreCosmetic sc)
                        (currentPos sc + utf8_length l) ls)"
      using Cons.hyps(1) [of ?sc'] by simp
    ultimately show ?thesis using True rd by simp
  next
    case False
    let ?sc1 = "sc\<lparr>reader := ls, currentPos := currentPos sc + utf8_length l\<rparr>"
    have "scan createRule isCosmetic sc = scan createRule isCosmetic ?sc1"
      using scan_Cons_skipped [OF rd False] .
    then have "scanAll createRule isCosmetic sc = scanAll createRule isCosmetic ?sc1"
      by (subst scanAll.simps, subst (2) scanAll.simps) simp
    moreover have "map (map_option ir_index) (scanAll createRule isCosmetic ?sc1)
                    = map Some (offsetsFrom createRule isCosmetic (listId sc) (ignoreCosmetic sc)
                        (currentPos sc + utf8_length l) ls)"
      using Cons.hyps(1) [of ?sc1] by simp
    ultimately show ?thesis using False rd by simp
  qed
qed

lemma offsetsFrom_ge: "x \<in> set (offsetsFrom createRule isCosmetic lid ign p ls) \<Longrightarrow> p \<le> x"
proof (induction ls arbitrary: p)
  case Nil
  then show ?case by simp
next
  case (Cons l ls)
  show ?case
  proof (cases "x \<in> set (offsetsFrom createRule isCosmetic lid ign (p + utf8_length l) ls)")
    case True
    then have "p + utf8_length l \<le> x" by (rule Cons.IH)
    then show ?thesis by simp
  next
    case False
    then show ?thesis using Cons.prems by (simp split: if_splits)
  qed
qed

lemma offsetsFrom_sorted: "sorted_wrt (<) (offsetsFrom createRule isCosmetic lid ign p ls)"
proof (induction ls arbitrary: p)
  case Nil
  then show ?case by simp
next
  case (Cons l ls)
  show ?case
  proof (cases "acceptedLine createRule isCosmetic lid ign l")
    case True
    then have "0 < utf8_length l" by (simp add: acceptedLine_def utf8_length_pos)
    then have "\<forall>x \<in> set (offsetsFrom createRule isCosmetic lid ign (p + utf8_length l) ls). p < x"
      using offsetsFrom_ge [of _ createRule isCosmetic lid ign "p + utf8_length l" ls] by fastforce
    then show ?thesis using True Cons.IH by simp
  next
    case False
    then show ?thesis using Cons.IH by simp
  qed
qed

lemma offsetsFrom_index:
  "offsetsFrom createRule isCosmetic lid ign p ls
     = map (\<lambda>k. p + sum_list (map utf8_length (take k ls)))
         (filter (\<lambda>k. acceptedLine createRule isCosmetic lid ign (ls ! k)) [0..<length ls])"
proof (induction ls arbitrary: p)
  case Nil
  then show ?case by simp
next
  case (Cons l ls)
  have u: "[0..<length (l # ls)] = 0 # map Suc [0..<length ls]"
    by (simp add: upt_conv_Cons map_Suc_upt del: upt_Suc)
  show ?case
    unfolding u by (simp add: Cons.IH filter_map comp_def add.assoc)
qed

text \<open>
  C4.  For a reader that yields the lines of the input one after the other and then
  \<open>null\<close>, the indexes of the rules that \<open>getRule()\<close> returns after the successive
  \<open>scan()\<close> calls that return true are the byte offsets of the lines that give a rule,
  and they are strictly increasing.
\<close>

theorem scan_indexes_increasing:
  "map (map_option ir_index) (scanAll createRule isCosmetic (RuleScanner lines lid ign))
     = map Some (ruleLineOffsets createRule isCosmetic lid ign lines)
   \<and> sorted_wrt (<) (ruleLineOffsets createRule isCosmetic lid ign lines)"
proof -
  have e: "offsetsFrom createRule isCosmetic lid ign 0 lines
             = ruleLineOffsets createRule isCosmetic lid ign lines"
    by (simp add: offsetsFrom_index ruleLineOffsets_def)
  show ?thesis
    using scanAll_offsetsFrom [of createRule isCosmetic "RuleScanner lines lid ign"]
      offsetsFrom_sorted [of createRule isCosmetic lid ign 0 lines]
    by (simp add: e RuleScanner_def)
qed

text \<open>On the three example lines the indexes are 0 and 21: the first index is 0.\<close>

lemma trim_examples:
  "trim (str ''||example.org'' @ [10]) = str ''||example.org''"
  "trim (str ''! test'' @ [10]) = str ''! test''"
  "trim (str ''##banner'') = str ''##banner''"
  by (simp_all add: trim_def isWhiteSpace_def str_def)

theorem scan_indexes_increasing_witness:
  "map (map_option ir_index)
       (scanAll exampleCreateRule (\<lambda>r. False) (RuleScanner exampleLines 1 False))
     = [Some 0, Some 21]
   \<and> sorted_wrt (<) [0, 21 :: nat]"
proof -
  have "ruleLineOffsets exampleCreateRule (\<lambda>r. False) 1 False exampleLines = [0, 21]"
    by (simp add: ruleLineOffsets_def acceptedLine_def exampleLines_def trim_examples
        exampleCreateRule_def upt_rec) (simp add: str_def)
  then show ?thesis
    using scan_indexes_increasing [of exampleCreateRule "\<lambda>r. False" exampleLines 1 False]
    by simp
qed


section \<open>Cookie rules\<close>

lemma lookupModifyingRules_loop_eq:
  "lookupModifyingRules_loop cmatches name rules result
     = (if nonModifyingApplies cmatches rules name then []
        else result @ filter (\<lambda>r. cmatches r name \<and> isModifyingRule r) rules)"
  by (induction rules arbitrary: result) (auto simp: nonModifyingApplies_def)

lemma lookupModifyingRules_eq:
  "lookupModifyingRules cmatches name rules
     = (if nonModifyingApplies cmatches rules name then []
        else filter (\<lambda>r. cmatches r name \<and> isModifyingRule r) rules)"
  by (simp add: lookupModifyingRules_def lookupModifyingRules_loop_eq)

lemma lookupNotModifyingRule_None:
  "lookupNotModifyingRule cmatches name rules = None \<longleftrightarrow> \<not> nonModifyingApplies cmatches rules name"
  by (induction rules) (auto simp: nonModifyingApplies_def)

lemma schedule_same:
  "getOrEmpty (scheduleProcessingCookie m rid n u rs rm) rid
     = getOrEmpty m rid @ [\<lparr>entryRemove = rm, entryCookieName = n, entryCookieUrl = u, entryRules = rs\<rparr>]"
  by (simp add: scheduleProcessingCookie_def getOrEmpty_def)

lemma schedule_other:
  "k \<noteq> rid \<Longrightarrow> scheduleProcessingCookie m rid n u rs rm k = m k"
  by (simp add: scheduleProcessingCookie_def)

lemma processCookies_loop_entries:
  "\<exists>added. getOrEmpty (snd (snd (processCookies_loop cmatches req cookieRules i cookies modified m)))
              (requestId req) = getOrEmpty m (requestId req) @ added
           \<and> list_all (modifyEntryAllowed cmatches cookieRules) added"
proof (induction i arbitrary: cookies modified m)
  case 0
  then show ?case by simp
next
  case (Suc i)
  let ?name = "cookie_name (cookies ! i)"
  let ?rid = "requestId req"
  define step1 where "step1 =
            (case lookupNotModifyingRule cmatches ?name cookieRules of
               None \<Rightarrow> (cookies, modified, m)
             | Some bRule \<Rightarrow>
                 (let (cookies', modified') =
                        (if \<not> isWhitelistRule bRule
                         then (take i cookies @ drop (Suc i) cookies, True)
                         else (cookies, modified))
                  in (cookies', modified',
                      scheduleProcessingCookie m ?rid ?name (url req) [bRule] True)))"
  obtain cookies1 modified1 m1 where s1: "step1 = (cookies1, modified1, m1)"
    by (cases step1) auto
  have a1: "\<exists>added. getOrEmpty m1 ?rid = getOrEmpty m ?rid @ added
                   \<and> list_all (modifyEntryAllowed cmatches cookieRules) added"
  proof (cases "lookupNotModifyingRule cmatches ?name cookieRules")
    case None
    then have "m1 = m" using s1 by (simp add: step1_def)
    then show ?thesis by simp
  next
    case (Some bRule)
    then have "m1 = scheduleProcessingCookie m ?rid ?name (url req) [bRule] True"
      using s1 by (auto simp: step1_def Let_def split: if_splits)
    then show ?thesis by (simp add: schedule_same modifyEntryAllowed_def)
  qed
  define m2 where "m2 =
            (if lookupModifyingRules cmatches ?name cookieRules \<noteq> []
             then scheduleProcessingCookie m1 ?rid ?name (url req)
                    (lookupModifyingRules cmatches ?name cookieRules) False
             else m1)"
  have a2: "\<exists>added. getOrEmpty m2 ?rid = getOrEmpty m1 ?rid @ added
                   \<and> list_all (modifyEntryAllowed cmatches cookieRules) added"
  proof (cases "lookupModifyingRules cmatches ?name cookieRules = []")
    case True
    then show ?thesis by (simp add: m2_def)
  next
    case False
    then have "\<not> nonModifyingApplies cmatches cookieRules ?name"
      by (auto simp: lookupModifyingRules_eq split: if_splits)
    then show ?thesis using False
      by (simp add: m2_def schedule_same modifyEntryAllowed_def lookupModifyingRules_eq)
  qed
  have unf: "processCookies_loop cmatches req cookieRules (Suc i) cookies modified m
               = processCookies_loop cmatches req cookieRules i cookies1 modified1 m2"
    using s1 by (simp add: step1_def [symmetric] m2_def Let_def)
  obtain x where x: "getOrEmpty m1 ?rid = getOrEmpty m ?rid @ x"
    "list_all (modifyEntryAllowed cmatches cookieRules) x" using a1 by blast
  obtain y where y: "getOrEmpty m2 ?rid = getOrEmpty m1 ?rid @ y"
    "list_all (modifyEntryAllowed cmatches cookieRules) y" using a2 by blast
  obtain z where z: "getOrEmpty (snd (snd (processCookies_loop cmatches req cookieRules i cookies1 modified1 m2))) ?rid
       = getOrEmpty m2 ?rid @ z" "list_all (modifyEntryAllowed cmatches cookieRules) z"
    using Suc.IH [of cookies1 modified1 m2] by blast
  show ?case
    unfolding unf using x y z by (intro exI [of _ "x @ y @ z"]) simp
qed

text \<open>
  C5.  If a rule that does not modify applies to the cookie name,
  \<open>lookupModifyingRules\<close> returns the empty list; otherwise it returns the matching
  modifying rules in the order of the list.  Hence every entry that
  \<open>processRequestHeaders\<close> adds to the schedule of the request with \<open>remove: false\<close> is
  for a cookie to which no such rule applies.
\<close>

theorem lookupModifyingRules_none_or_all:
  "lookupModifyingRules cmatches name cookieRules
     = (if nonModifyingApplies cmatches cookieRules name then []
        else filter (\<lambda>r. cmatches r name \<and> isModifyingRule r) cookieRules)
   \<and> (\<exists>added.
         getOrEmpty (snd (snd (processRequestHeaders lower cmatches m req requestHeaders cookieRules)))
           (requestId req) = getOrEmpty m (requestId req) @ added
         \<and> list_all (modifyEntryAllowed cmatches cookieRules) added)"
proof -
  have "\<exists>added.
         getOrEmpty (snd (snd (processRequestHeaders lower cmatches m req requestHeaders cookieRules)))
           (requestId req) = getOrEmpty m (requestId req) @ added
         \<and> list_all (modifyEntryAllowed cmatches cookieRules) added"
  proof (cases "cookieRules = []")
    case True
    then show ?thesis by (simp add: processRequestHeaders_def)
  next
    case ne: False
    show ?thesis
    proof (cases "findHeaderByName lower requestHeaders (str ''Cookie'')")
      case None
      then show ?thesis by (simp add: processRequestHeaders_def)
    next
      case (Some ph)
      obtain pos cookieHeader where ph: "ph = (pos, cookieHeader)" by (cases ph)
      show ?thesis
      proof (cases "parseCookie (header_value cookieHeader) = []")
        case True
        then show ?thesis using Some ph by (simp add: processRequestHeaders_def)
      next
        case False
        let ?cs = "parseCookie (header_value cookieHeader)"
        have "snd (snd (processRequestHeaders lower cmatches m req requestHeaders cookieRules))
                = snd (snd (processCookies_loop cmatches req cookieRules (length ?cs) ?cs False m))"
          using ne Some ph False
          by (simp add: processRequestHeaders_def Let_def split: prod.splits)
        then show ?thesis
          using processCookies_loop_entries [of cmatches req cookieRules "length ?cs" ?cs False m]
          by simp
      qed
    qed
  qed
  then show ?thesis by (simp add: lookupModifyingRules_eq)
qed

theorem lookupModifyingRules_none_or_all_witness:
  "nonModifyingApplies matchesTrack [laxRule, trackRule] (str ''track'')
   \<and> lookupModifyingRules matchesTrack (str ''track'') [laxRule, trackRule] = []
   \<and> lookupModifyingRules matchesTrack (str ''track'') [laxRule] = [laxRule]
   \<and> lookupModifyingRules matchesTrack (str ''other'') [laxRule, trackRule] = []"
  using lookupModifyingRules_none_or_all [of matchesTrack "str ''track''" "[laxRule, trackRule]"]
    lookupModifyingRules_none_or_all [of matchesTrack "str ''track''" "[laxRule]"]
    lookupModifyingRules_none_or_all [of matchesTrack "str ''other''" "[laxRule, trackRule]"]
  by (simp add: nonModifyingApplies_def matchesTrack_def isModifyingRule_def laxRule_def
      trackRule_def str_def)

lemma findHeaderByName_loop_None:
  "findHeaderByName_loop lower hs n i = None \<longleftrightarrow> (\<forall>h \<in> set hs. lower (header_name h) \<noteq> lower n)"
  by (induction hs arbitrary: i) auto

text \<open>
  C9.  If there are no cookie rules, or no request header is named \<open>Cookie\<close> up to
  case, or the value of the \<open>Cookie\<close> header parses to no pair, then
  \<open>processRequestHeaders\<close> returns false and leaves the request headers and the
  schedule map as they were.
\<close>

theorem processRequestHeaders_nothing_to_do:
  assumes "cookieRules = []
           \<or> (\<forall>h \<in> set requestHeaders. lower (header_name h) \<noteq> lower (str ''Cookie''))
           \<or> (\<exists>pos h. findHeaderByName lower requestHeaders (str ''Cookie'') = Some (pos, h)
                       \<and> parseCookie (header_value h) = [])"
  shows "processRequestHeaders lower cmatches m req requestHeaders cookieRules
           = (False, requestHeaders, m)"
proof -
  consider (rules) "cookieRules = []"
    | (header) "\<forall>h \<in> set requestHeaders. lower (header_name h) \<noteq> lower (str ''Cookie'')"
    | (cookies) pos h where "findHeaderByName lower requestHeaders (str ''Cookie'') = Some (pos, h)"
        "parseCookie (header_value h) = []"
    using assms by blast
  then show ?thesis
  proof cases
    case rules
    then show ?thesis by (simp add: processRequestHeaders_def)
  next
    case header
    then have "findHeaderByName lower requestHeaders (str ''Cookie'') = None"
      by (simp add: findHeaderByName_def findHeaderByName_loop_None)
    then show ?thesis by (simp add: processRequestHeaders_def)
  next
    case cookies
    then show ?thesis by (simp add: processRequestHeaders_def)
  qed
qed

theorem processRequestHeaders_nothing_to_do_witness:
  "processRequestHeaders asciiLowerCase matchesTrack Map.empty siteRequest
       [cookieHeaderOf ''Cookie'' ''track=1''] []
     = (False, [cookieHeaderOf ''Cookie'' ''track=1''], Map.empty)
   \<and> processRequestHeaders asciiLowerCase matchesTrack Map.empty siteRequest
       [cookieHeaderOf ''Host'' ''site.com''] [trackRule]
     = (False, [cookieHeaderOf ''Host'' ''site.com''], Map.empty)
   \<and> findHeaderByName asciiLowerCase [cookieHeaderOf ''Host'' ''site.com'', cookieHeaderOf ''COOKIE'' ''track'']
         (str ''Cookie'') = Some (1, cookieHeaderOf ''COOKIE'' ''track'')
   \<and> parseCookie (header_value (cookieHeaderOf ''COOKIE'' ''track'')) = []
   \<and> processRequestHeaders asciiLowerCase matchesTrack Map.empty siteRequest
       [cookieHeaderOf ''Host'' ''site.com'', cookieHeaderOf ''COOKIE'' ''track''] [trackRule]
     = (False, [cookieHeaderOf ''Host'' ''site.com'', cookieHeaderOf ''COOKIE'' ''track''], Map.empty)"
proof -
  have h1: "([] :: cookie_rule list) = []
            \<or> (\<forall>h \<in> set [cookieHeaderOf ''Cookie'' ''track=1''].
                  asciiLowerCase (header_name h) \<noteq> asciiLowerCase (str ''Cookie''))
            \<or> (\<exists>pos h. findHeaderByName asciiLowerCase [cookieHeaderOf ''Cookie'' ''track=1'']
                            (str ''Cookie'') = Some (pos, h)
                        \<and> parseCookie (header_value h) = [])"
    by simp
  have h2: "[trackRule] = []
            \<or> (\<forall>h \<in> set [cookieHeaderOf ''Host'' ''site.com''].
                  asciiLowerCase (header_name h) \<noteq> asciiLowerCase (str ''Cookie''))
            \<or> (\<exists>pos h. findHeaderByName asciiLowerCase [cookieHeaderOf ''Host'' ''site.com'']
                            (str ''Cookie'') = Some (pos, h)
                        \<and> parseCookie (header_value h) = [])"
    by (simp add: cookieHeaderOf_def asciiLowerCase_def str_def)
  have f: "findHeaderByName asciiLowerCase
             [cookieHeaderOf ''Host'' ''site.com'', cookieHeaderOf ''COOKIE'' ''track'']
             (str ''Cookie'') = Some (1, cookieHeaderOf ''COOKIE'' ''track'')"
    by (simp add: findHeaderByName_def cookieHeaderOf_def asciiLowerCase_def str_def)
  have p: "parseCookie (header_value (cookieHeaderOf ''COOKIE'' ''track'')) = []"
    by (simp add: parseCookie_def cookieHeaderOf_def str_def semicolon_def equalsSign_def)
  have h3: "[trackRule] = []
            \<or> (\<forall>h \<in> set [cookieHeaderOf ''Host'' ''site.com'', cookieHeaderOf ''COOKIE'' ''track''].
                  asciiLowerCase (header_name h) \<noteq> asciiLowerCase (str ''Cookie''))
            \<or> (\<exists>pos h. findHeaderByName asciiLowerCase
                            [cookieHeaderOf ''Host'' ''site.com'', cookieHeaderOf ''COOKIE'' ''track'']
                            (str ''Cookie'') = Some (pos, h)
                        \<and> parseCookie (header_value h) = [])"
    using f p by blast
  show ?thesis
    using processRequestHeaders_nothing_to_do [OF h1, of matchesTrack Map.empty siteRequest]
      processRequestHeaders_nothing_to_do [OF h2, of matchesTrack Map.empty siteRequest]
      processRequestHeaders_nothing_to_do [OF h3, of matchesTrack Map.empty siteRequest]
      f p
    by simp
qed

text \<open>
  C7.  The claim: \<open>updateSetCookieMaxAge\<close> changes the expiry only of a cookie without
  expiry or with a later one, the new expiry is \<open>now + maxAge\<close>, and the lifetime is
  never extended.  The code on a cookie with \<open>maxAge: 0\<close> and no \<open>expires\<close>, for the
  rule's \<open>maxAge\<close> 60: \<open>if (setCookie.maxAge)\<close> takes 0 for an absent value, so the
  cookie, which expires now, is given \<open>maxAge\<close> 60.  And on a cookie with both
  \<open>maxAge: 1000\<close> and \<open>expires\<close>: the expiry is read from \<open>maxAge\<close> but written to
  \<open>expires\<close>, so \<open>maxAge\<close> stays 1000 and with it the expiry.
\<close>

theorem updateSetCookieMaxAge_extends_lifetime:
  "updateSetCookieMaxAge nowMs \<lparr>bcName = str ''track'', bcMaxAge = Some 0, bcExpires = None\<rparr> 60
     = (True, \<lparr>bcName = str ''track'', bcMaxAge = Some 60, bcExpires = None\<rparr>)
   \<and> expiryTimeSec nowMs \<lparr>bcName = str ''track'', bcMaxAge = Some 0, bcExpires = None\<rparr>
     = Some (of_int nowMs / 1000)
   \<and> expiryTimeSec nowMs \<lparr>bcName = str ''track'', bcMaxAge = Some 60, bcExpires = None\<rparr>
     = Some (of_int nowMs / 1000 + 60)
   \<and> updateSetCookieMaxAge 0 \<lparr>bcName = str ''track'', bcMaxAge = Some 1000, bcExpires = Some 1000000\<rparr> 60
     = (True, \<lparr>bcName = str ''track'', bcMaxAge = Some 1000, bcExpires = Some 60000\<rparr>)
   \<and> expiryTimeSec 0 \<lparr>bcName = str ''track'', bcMaxAge = Some 1000, bcExpires = Some 60000\<rparr>
     = Some 1000"
  by (simp add: updateSetCookieMaxAge_def expiryTimeSec_def newDate_def)

end
